theory Spec2Isabelle
  imports Complex_Main "HOL-Library.AList" "HOL-Library.Char_ord" "HOL-Library.List_Lexorder"
begin

section \<open>Data model (prom\_multi\_proc.go)\<close>

text \<open>
  A Go \<open>float64\<close>: \<open>Float x\<close> is the finite value that denotes the number \<open>x\<close>
  (\<open>Float 0\<close> is the positive zero), \<open>NegZero\<close> is the negative zero, which JSON
  writes \<open>-0\<close> and \<open>fmt\<close> prints differently from \<open>0\<close>, and the other three are
  the special values that \<open>strconv.ParseFloat\<close> can also return. The registry code
  never computes with floats; it stores them, uses them as map keys and prints them.
\<close>

datatype float64 = Float real | NegZero | PosInf | NegInf | NaN

text \<open>
  Go's \<open>==\<close> on floats, which is also the key equality of a float-keyed map: a NaN is
  equal to nothing, and the two zeros are equal to each other.
\<close>

fun float64_eq :: "float64 \<Rightarrow> float64 \<Rightarrow> bool" where
  "float64_eq NaN _ = False"
| "float64_eq _ NaN = False"
| "float64_eq NegZero b = (b = NegZero \<or> b = Float 0)"
| "float64_eq a NegZero = (a = Float 0)"
| "float64_eq a b = (a = b)"

text \<open>
  A Go map is an association list with pairwise different keys; the order of the list
  stands for the order in which \<open>range\<close> happens to visit the entries.
\<close>

record MetricSpec =
  Type :: string
  Name :: string
  Help :: string
  Labels :: "string list"
  Buckets :: "float64 list"
  Objectives :: "(string \<times> float64) list"

record Metric =
  metric_Name :: string
  LabelValues :: "string list"
  Method :: string
  Value :: float64

text \<open>
  The values of Go's \<open>error\<close> that the registry builds with \<open>fmt.Errorf\<close>, one
  constructor per format string, and \<open>LibraryError\<close> for an error handed back by a
  library call.
\<close>

datatype error =
    InvalidMetricName string
  | FailedReRegister string
  | UnknownType string string
  | DuplicateLabel string
  | UnregisterNotExist string
  | FailedUnregister string
  | HandleNotExist string
  | LibraryError string

section \<open>Regular expressions and \<open>metricRe\<close> (registry.go)\<close>

text \<open>
  The fragment of Go's regular expressions that \<open>metricRe\<close> uses: character classes
  given by inclusive ranges, concatenation and \<open>+\<close>. Matching is by derivatives.
\<close>

datatype regexp =
    Never
  | Empty
  | Class "(char \<times> char) list"
  | Alt regexp regexp
  | Cat regexp regexp
  | Star regexp

definition Plus :: "regexp \<Rightarrow> regexp" where
  "Plus r = Cat r (Star r)"

definition in_class :: "(char \<times> char) list \<Rightarrow> char \<Rightarrow> bool" where
  "in_class rs c = list_ex (\<lambda>(lo, hi). lo \<le> c \<and> c \<le> hi) rs"

fun nullable :: "regexp \<Rightarrow> bool" where
  "nullable Never = False"
| "nullable Empty = True"
| "nullable (Class rs) = False"
| "nullable (Alt r s) = (nullable r \<or> nullable s)"
| "nullable (Cat r s) = (nullable r \<and> nullable s)"
| "nullable (Star r) = True"

fun deriv :: "char \<Rightarrow> regexp \<Rightarrow> regexp" where
  "deriv c Never = Never"
| "deriv c Empty = Never"
| "deriv c (Class rs) = (if in_class rs c then Empty else Never)"
| "deriv c (Alt r s) = Alt (deriv c r) (deriv c s)"
| "deriv c (Cat r s) =
     (if nullable r then Alt (Cat (deriv c r) s) (deriv c s) else Cat (deriv c r) s)"
| "deriv c (Star r) = Cat (deriv c r) (Star r)"

text \<open>
  \<open>MatchString\<close> for a pattern written \<open>^r$\<close>: the whole string has to match \<open>r\<close>
  (without the multi-line flag, \<open>$\<close> is the end of the text).
\<close>

fun MatchString :: "regexp \<Rightarrow> string \<Rightarrow> bool" where
  "MatchString r [] = nullable r"
| "MatchString r (c # cs) = MatchString (deriv c r) cs"

text \<open>\<^verbatim>\<open>metricRe = regexp.MustCompile(`^[a-z]+[0-9a-z_]+$`)\<close>\<close>

definition metricRe :: regexp where
  "metricRe =
     Cat (Plus (Class [(CHR ''a'', CHR ''z'')]))
         (Plus (Class [(CHR ''0'', CHR ''9''), (CHR ''a'', CHR ''z''), (CHR ''_'', CHR ''_'')]))"

definition validateMetric :: "string \<Rightarrow> error option" where
  "validateMetric name =
     (if \<not> MatchString metricRe name then Some (InvalidMetricName name) else None)"

text \<open>The language of a regular expression, to state what the matcher decides.\<close>

inductive_set star :: "string set \<Rightarrow> string set" for A :: "string set" where
  star_nil: "[] \<in> star A"
| star_app: "u \<in> A \<Longrightarrow> v \<in> star A \<Longrightarrow> u @ v \<in> star A"

fun lang :: "regexp \<Rightarrow> string set" where
  "lang Never = {}"
| "lang Empty = {[]}"
| "lang (Class rs) = {[c] |c. in_class rs c}"
| "lang (Alt r s) = lang r \<union> lang s"
| "lang (Cat r s) = {u @ v |u v. u \<in> lang r \<and> v \<in> lang s}"
| "lang (Star r) = star (lang r)"

text \<open>
  The identifier grammar in the words of the specification: lowercase letters, digits and
  underscores, starting with a lowercase letter.
\<close>

definition is_lower :: "char \<Rightarrow> bool" where
  "is_lower c = (CHR ''a'' \<le> c \<and> c \<le> CHR ''z'')"

definition is_digit :: "char \<Rightarrow> bool" where
  "is_digit c = (CHR ''0'' \<le> c \<and> c \<le> CHR ''9'')"

definition ident_char :: "char \<Rightarrow> bool" where
  "ident_char c = (is_lower c \<or> is_digit c \<or> c = CHR ''_'')"

definition identifier_grammar :: "string \<Rightarrow> bool" where
  "identifier_grammar s = (case s of [] \<Rightarrow> False | c # cs \<Rightarrow> is_lower c \<and> list_all ident_char cs)"

section \<open>Library calls\<close>

text \<open>
  The collectors of the Prometheus client library, each represented by the constructor call
  that makes it. \<open>CounterOpts\<close> and \<open>GaugeOpts\<close> are both the library's \<open>Opts\<close>.
\<close>

record Opts =
  opts_Name :: string
  opts_Help :: string

record HistogramOpts =
  hopts_Name :: string
  hopts_Help :: string
  hopts_Buckets :: "float64 list"

record SummaryOpts =
  sopts_Name :: string
  sopts_Help :: string
  sopts_Objectives :: "(float64 \<times> float64) list"

datatype collector =
    NewCounter Opts
  | NewCounterVec Opts "string list"
  | NewGauge Opts
  | NewGaugeVec Opts "string list"
  | NewHistogram HistogramOpts
  | NewHistogramVec HistogramOpts "string list"
  | NewSummary SummaryOpts
  | NewSummaryVec SummaryOpts "string list"

text \<open>
  What the code calls in libraries and cannot be read from the repository is a parameter:
  the MD5 digest, the \<open>%v\<close> rendering of a float, \<open>strconv.ParseFloat\<close>, and
  \<open>prometheus.Register\<close> and \<open>prometheus.Unregister\<close>, which act on the state
  \<open>'s\<close> of the process-wide default registerer (the exposition surface).
\<close>

record 's lib =
  md5_Sum :: "string \<Rightarrow> string"
  fmt_float64 :: "float64 \<Rightarrow> string"
  strconv_ParseFloat :: "string \<Rightarrow> error + float64"
  prometheus_Register :: "collector \<Rightarrow> 's \<Rightarrow> error option \<times> 's"
  prometheus_Unregister :: "collector \<Rightarrow> 's \<Rightarrow> bool \<times> 's"

section \<open>The content fingerprint (prom\_multi\_proc.go, \<open>Hash\<close>)\<close>

fun join :: "string \<Rightarrow> string list \<Rightarrow> string" where
  "join sep [] = []"
| "join sep [x] = x"
| "join sep (x # y # ys) = x @ sep @ join sep (y # ys)"

text \<open>
  \<open>fmt.Sprintf("%+v", v)\<close> for a slice of strings, a slice of floats and a map from
  strings to floats. A slice is printed as its elements between brackets, separated by
  spaces; a map as \<open>map[k:v ...]\<close> with the keys in increasing order (as \<open>fmt\<close>
  does from Go 1.12 on; \<open>go.mod\<close> asks for Go 1.15).
\<close>

definition Sprintf_strings :: "string list \<Rightarrow> string" where
  "Sprintf_strings xs = ''['' @ join '' '' xs @ '']''"

definition Sprintf_floats :: "'s lib \<Rightarrow> float64 list \<Rightarrow> string" where
  "Sprintf_floats L xs = ''['' @ join '' '' (map (fmt_float64 L) xs) @ '']''"

definition Sprintf_map :: "'s lib \<Rightarrow> (string \<times> float64) list \<Rightarrow> string" where
  "Sprintf_map L m =
     ''map['' @ join '' '' (map (\<lambda>(k, v). k @ '':'' @ fmt_float64 L v) (sort_key fst m)) @ '']''"

text \<open>\<open>fmt.Sprintf("%x", bytes)\<close>: two lowercase hexadecimal digits per byte.\<close>

definition hexdigit :: "nat \<Rightarrow> char" where
  "hexdigit n = ''0123456789abcdef'' ! (n mod 16)"

definition Sprintf_x :: "string \<Rightarrow> string" where
  "Sprintf_x bs = concat (map (\<lambda>b. [hexdigit (of_char b div 16), hexdigit (of_char b mod 16)]) bs)"

text \<open>What \<open>Hash\<close> writes to the hasher, one text for each \<open>io.WriteString\<close>.\<close>

definition Hash_writes :: "'s lib \<Rightarrow> MetricSpec \<Rightarrow> string list" where
  "Hash_writes L ms =
     [Type ms, Help ms, Sprintf_strings (Labels ms), Sprintf_floats L (Buckets ms),
      Sprintf_map L (Objectives ms)]"

definition Hash :: "'s lib \<Rightarrow> MetricSpec \<Rightarrow> string" where
  "Hash L ms = Sprintf_x (md5_Sum L (concat (Hash_writes L ms)))"

text \<open>
  For the converse, that different fields give different fingerprints: the digests of the two
  written texts do not collide, and the printed items can be told apart. A printed item is
  not empty and has no space (the separator inside the brackets), the floats concerned
  print differently from one another, and a key of the objectives has neither a space nor
  the colon that separates it from its value.
\<close>

definition no_collision :: "'s lib \<Rightarrow> MetricSpec \<Rightarrow> MetricSpec \<Rightarrow> bool" where
  "no_collision L a b =
     (md5_Sum L (concat (Hash_writes L a)) = md5_Sum L (concat (Hash_writes L b)) \<longrightarrow>
      concat (Hash_writes L a) = concat (Hash_writes L b))"

definition plain :: "string \<Rightarrow> bool" where
  "plain s = (s \<noteq> [] \<and> CHR '' '' \<notin> set s)"

definition floats_plain :: "'s lib \<Rightarrow> float64 list \<Rightarrow> bool" where
  "floats_plain L xs =
     (inj_on (fmt_float64 L) (set xs) \<and> list_all (\<lambda>x. plain (fmt_float64 L x)) xs)"

definition keys_plain :: "(string \<times> float64) list \<Rightarrow> bool" where
  "keys_plain m = list_all (\<lambda>(k, v). CHR '' '' \<notin> set k \<and> CHR '':'' \<notin> set k) m"

section \<open>Handlers\<close>

text \<open>
  The eight handler structs, each made by \<open>buildHandler\<close> from the spec and the collector
  (\<open>&CounterHandler{spec, counter}\<close> and so on).
\<close>

datatype MetricHandler =
    CounterHandler MetricSpec collector
  | CounterVecHandler MetricSpec collector
  | GaugeHandler MetricSpec collector
  | GaugeVecHandler MetricSpec collector
  | HistogramHandler MetricSpec collector
  | HistogramVecHandler MetricSpec collector
  | SummaryHandler MetricSpec collector
  | SummaryVecHandler MetricSpec collector

text \<open>
  Modelled from the spec: the methods \<open>Spec()\<close> and \<open>Collector()\<close> of the handler
  structs are defined outside the given sources. By the specification a handler is the
  pairing of a MetricSpec and a live collector and exposes both: \<open>Spec\<close> returns the spec
  the handler was made with, \<open>Collector\<close> its collector.
\<close>

fun Spec :: "MetricHandler \<Rightarrow> MetricSpec" where
  "Spec (CounterHandler spec c) = spec"
| "Spec (CounterVecHandler spec c) = spec"
| "Spec (GaugeHandler spec c) = spec"
| "Spec (GaugeVecHandler spec c) = spec"
| "Spec (HistogramHandler spec c) = spec"
| "Spec (HistogramVecHandler spec c) = spec"
| "Spec (SummaryHandler spec c) = spec"
| "Spec (SummaryVecHandler spec c) = spec"

fun Collector :: "MetricHandler \<Rightarrow> collector" where
  "Collector (CounterHandler spec c) = c"
| "Collector (CounterVecHandler spec c) = c"
| "Collector (GaugeHandler spec c) = c"
| "Collector (GaugeVecHandler spec c) = c"
| "Collector (HistogramHandler spec c) = c"
| "Collector (HistogramVecHandler spec c) = c"
| "Collector (SummaryHandler spec c) = c"
| "Collector (SummaryVecHandler spec c) = c"

section \<open>Validation and \<open>buildHandler\<close> (registry.go)\<close>

definition defaultBuckets :: "float64 list" where
  "defaultBuckets =
     [Float 0.005, Float 0.01, Float 0.025, Float 0.05, Float 0.1, Float 0.25, Float 0.5,
      Float 1.0, Float 2.5, Float 5.0, Float 10.0]"

definition defaultObjectives :: "(float64 \<times> float64) list" where
  "defaultObjectives =
     [(Float 0.5, Float 0.05), (Float 0.9, Float 0.01), (Float 0.99, Float 0.001)]"

text \<open>The inner loop of \<open>validateLabels\<close>: \<open>for j := i + 1; j < n; j++\<close>.\<close>

function validateLabels_inner :: "string list \<Rightarrow> nat \<Rightarrow> nat \<Rightarrow> error option" where
  "validateLabels_inner labels i j =
     (if j < length labels then
        (if labels ! i = labels ! j then Some (DuplicateLabel (labels ! i))
         else validateLabels_inner labels i (j + 1))
      else None)"
  by pat_completeness auto
termination
  by (relation "measure (\<lambda>(labels, i, j). length labels - j)") auto

text \<open>
  The outer loop: \<open>for i := 0; i < n-1; i++\<close>. \<open>n\<close> is a Go \<open>int\<close>, so \<open>n-1\<close>
  is \<open>-1\<close> for the empty list; every index read is below \<open>n\<close>.
\<close>

function validateLabels_outer :: "string list \<Rightarrow> nat \<Rightarrow> error option" where
  "validateLabels_outer labels i =
     (if int i < int (length labels) - 1 then
        (case validateMetric (labels ! i) of
           Some err \<Rightarrow> Some err
         | None \<Rightarrow>
             (case validateLabels_inner labels i (i + 1) of
                Some err \<Rightarrow> Some err
              | None \<Rightarrow> validateLabels_outer labels (i + 1)))
      else None)"
  by pat_completeness auto
termination
  by (relation "measure (\<lambda>(labels, i). length labels - i)") auto

declare validateLabels_inner.simps [simp del]

declare validateLabels_outer.simps [simp del]

definition validateLabels :: "string list \<Rightarrow> error option" where
  "validateLabels labels = validateLabels_outer labels 0"

text \<open>\<open>result[f] = value\<close> on a float-keyed Go map.\<close>

fun mapassign :: "float64 \<Rightarrow> float64 \<Rightarrow> (float64 \<times> float64) list \<Rightarrow> (float64 \<times> float64) list" where
  "mapassign f v [] = [(f, v)]"
| "mapassign f v ((k, w) # m) =
     (if float64_eq k f then (k, v) # m else (k, w) # mapassign f v m)"

text \<open>
  The loop of \<open>validateObjectives\<close> over the entries of the map, with the result built
  so far. On an error the function returns the partial result together with the error.
\<close>

fun validateObjectives_loop ::
  "'s lib \<Rightarrow> (string \<times> float64) list \<Rightarrow> (float64 \<times> float64) list
     \<Rightarrow> (float64 \<times> float64) list \<times> error option" where
  "validateObjectives_loop L [] result = (result, None)"
| "validateObjectives_loop L ((key, val) # rest) result =
     (case strconv_ParseFloat L key of
        Inl err \<Rightarrow> (result, Some err)
      | Inr f \<Rightarrow> validateObjectives_loop L rest (mapassign f val result))"

definition validateObjectives ::
  "'s lib \<Rightarrow> (string \<times> float64) list \<Rightarrow> (float64 \<times> float64) list \<times> error option" where
  "validateObjectives L objectives = validateObjectives_loop L objectives []"

definition buildHandler :: "'s lib \<Rightarrow> MetricSpec \<Rightarrow> error + MetricHandler" where
  "buildHandler L spec =
     (if Type spec = ''counter'' then
        (let opts = \<lparr>opts_Name = Name spec, opts_Help = Help spec\<rparr> in
         if length (Labels spec) = 0 then Inr (CounterHandler spec (NewCounter opts))
         else
           (case validateLabels (Labels spec) of
              Some err \<Rightarrow> Inl err
            | None \<Rightarrow> Inr (CounterVecHandler spec (NewCounterVec opts (Labels spec)))))
      else if Type spec = ''gauge'' then
        (let opts = \<lparr>opts_Name = Name spec, opts_Help = Help spec\<rparr> in
         if length (Labels spec) = 0 then Inr (GaugeHandler spec (NewGauge opts))
         else
           (case validateLabels (Labels spec) of
              Some err \<Rightarrow> Inl err
            | None \<Rightarrow> Inr (GaugeVecHandler spec (NewGaugeVec opts (Labels spec)))))
      else if Type spec = ''histogram'' then
        (let buckets = (if length (Buckets spec) > 0 then Buckets spec else defaultBuckets);
             opts = \<lparr>hopts_Name = Name spec, hopts_Help = Help spec, hopts_Buckets = buckets\<rparr> in
         if length (Labels spec) = 0 then Inr (HistogramHandler spec (NewHistogram opts))
         else
           (case validateLabels (Labels spec) of
              Some err \<Rightarrow> Inl err
            | None \<Rightarrow> Inr (HistogramVecHandler spec (NewHistogramVec opts (Labels spec)))))
      else if Type spec = ''summary'' then
        (case (if length (Objectives spec) > 0 then validateObjectives L (Objectives spec)
               else (defaultObjectives, None)) of
           (objectives, Some err) \<Rightarrow> Inl err
         | (objectives, None) \<Rightarrow>
             (let opts = \<lparr>sopts_Name = Name spec, sopts_Help = Help spec,
                          sopts_Objectives = objectives\<rparr> in
              if length (Labels spec) = 0 then Inr (SummaryHandler spec (NewSummary opts))
              else
                (case validateLabels (Labels spec) of
                   Some err \<Rightarrow> Inl err
                 | None \<Rightarrow> Inr (SummaryVecHandler spec (NewSummaryVec opts (Labels spec))))))
      else Inl (UnknownType (Name spec) (Type spec)))"

section \<open>The registry (registry.go)\<close>

text \<open>
  \<open>handlers\<close> is the map of the struct \<open>ireg\<close>. \<open>registerer\<close> is the state of the
  library's default registerer: a global of the process rather than a field of the struct,
  kept with the registry here because the registry's methods are what changes it. The
  mutex is left out: each method below is modelled as it runs while holding it.
\<close>

record 's ireg =
  handlers :: "(string \<times> MetricHandler) list"
  registerer :: 's

definition NewRegistry :: "'s \<Rightarrow> 's ireg" where
  "NewRegistry s = \<lparr>handlers = [], registerer = s\<rparr>"

definition doNames :: "'s ireg \<Rightarrow> string list" where
  "doNames r = map fst (handlers r)"

text \<open>\<open>Names\<close> takes the mutex and calls \<open>doNames\<close>.\<close>

definition Names :: "'s ireg \<Rightarrow> string list" where
  "Names r = doNames r"

text \<open>The last two statements of \<open>register\<close>, which both branches reach.\<close>

definition register_collector ::
  "'s lib \<Rightarrow> MetricSpec \<Rightarrow> MetricHandler \<Rightarrow> 's ireg \<Rightarrow> error option \<times> 's ireg" where
  "register_collector L spec handler r =
     (case prometheus_Register L (Collector handler) (registerer r) of
        (Some err, s') \<Rightarrow> (Some err, r\<lparr>registerer := s'\<rparr>)
      | (None, s') \<Rightarrow>
          (None, r\<lparr>handlers := AList.update (Name spec) handler (handlers r), registerer := s'\<rparr>))"

definition register :: "'s lib \<Rightarrow> MetricSpec \<Rightarrow> 's ireg \<Rightarrow> error option \<times> 's ireg" where
  "register L spec r =
     (case validateMetric (Name spec) of
        Some err \<Rightarrow> (Some err, r)
      | None \<Rightarrow>
          (case map_of (handlers r) (Name spec) of
             Some handler \<Rightarrow>
               (if Hash L (Spec handler) = Hash L spec then (None, r)
                else
                  (case prometheus_Unregister L (Collector handler) (registerer r) of
                     (False, s') \<Rightarrow> (Some (FailedReRegister (Name spec)), r\<lparr>registerer := s'\<rparr>)
                   | (True, s') \<Rightarrow>
                       register_collector L spec handler
                         (r\<lparr>handlers := AList.delete (Name spec) (handlers r),
                            registerer := s'\<rparr>)))
           | None \<Rightarrow>
               (case buildHandler L spec of
                  Inl err \<Rightarrow> (Some err, r)
                | Inr handler \<Rightarrow> register_collector L spec handler r)))"

definition unregister :: "'s lib \<Rightarrow> string \<Rightarrow> 's ireg \<Rightarrow> error option \<times> 's ireg" where
  "unregister L name r =
     (case map_of (handlers r) name of
        None \<Rightarrow> (Some (UnregisterNotExist name), r)
      | Some handler \<Rightarrow>
          (case prometheus_Unregister L (Collector handler) (registerer r) of
             (False, s') \<Rightarrow> (Some (FailedUnregister name), r\<lparr>registerer := s'\<rparr>)
           | (True, s') \<Rightarrow>
               (None, r\<lparr>handlers := AList.delete name (handlers r), registerer := s'\<rparr>)))"

text \<open>
  Modelled from the spec: \<open>sliceSubStr\<close> is defined outside the given sources. By the
  comment at its call (the names of metrics no longer present) and the specification's
  reload (every previously known name absent from the incoming names), it returns the
  elements of its first argument that do not occur in the second, in their order.
\<close>

definition sliceSubStr :: "string list \<Rightarrow> string list \<Rightarrow> string list" where
  "sliceSubStr a b = filter (\<lambda>v. v \<notin> set b) a"

text \<open>What \<open>Reload\<close> writes to the logger, one constructor per call.\<close>

datatype log_line =
    ErrorRegistering string error
  | Registered string
  | LogError error
  | Unregistered string

text \<open>The first loop of \<open>Reload\<close>, over the incoming specs.\<close>

fun Reload_register ::
  "'s lib \<Rightarrow> MetricSpec list \<Rightarrow> string list \<Rightarrow> log_line list \<Rightarrow> 's ireg
     \<Rightarrow> string list \<times> log_line list \<times> 's ireg" where
  "Reload_register L [] newNames out r = (newNames, out, r)"
| "Reload_register L (spec # specs) newNames out r =
     (case register L spec r of
        (Some err, r') \<Rightarrow>
          Reload_register L specs (newNames @ [Name spec])
            (out @ [ErrorRegistering (Name spec) err]) r'
      | (None, r') \<Rightarrow>
          Reload_register L specs (newNames @ [Name spec]) (out @ [Registered (Name spec)]) r')"

text \<open>The second loop, over the names to unregister.\<close>

fun Reload_unregister ::
  "'s lib \<Rightarrow> string list \<Rightarrow> log_line list \<Rightarrow> 's ireg \<Rightarrow> log_line list \<times> 's ireg" where
  "Reload_unregister L [] out r = (out, r)"
| "Reload_unregister L (name # unreg) out r =
     (case unregister L name r of
        (Some err, r') \<Rightarrow> Reload_unregister L unreg (out @ [LogError err]) r'
      | (None, r') \<Rightarrow> Reload_unregister L unreg (out @ [Unregistered name]) r')"

definition Reload :: "'s lib \<Rightarrow> MetricSpec list \<Rightarrow> 's ireg \<Rightarrow> log_line list \<times> 's ireg" where
  "Reload L specs r =
     (let names = doNames r in
      case Reload_register L specs [] [] r of
        (newNames, out, r') \<Rightarrow> Reload_unregister L (sliceSubStr names newNames) out r')"

text \<open>
  To state what \<open>Reload\<close> leaves: the registry when the first loop reaches the spec at
  index \<open>i\<close>; whether that spec is the last one of its name in the list; and whether the
  registration of a spec keeps its name in the map, that is, it succeeded, or it errored
  while the handler that the name had stayed in the map.
\<close>

definition Reload_before :: "'s lib \<Rightarrow> MetricSpec list \<Rightarrow> 's ireg \<Rightarrow> nat \<Rightarrow> 's ireg" where
  "Reload_before L specs r i = snd (snd (Reload_register L (take i specs) [] [] r))"

definition last_of_its_name :: "MetricSpec list \<Rightarrow> nat \<Rightarrow> bool" where
  "last_of_its_name specs i = (Name (specs ! i) \<notin> Name ` set (drop (Suc i) specs))"

definition kept_by_register :: "'s lib \<Rightarrow> MetricSpec \<Rightarrow> 's ireg \<Rightarrow> bool" where
  "kept_by_register L spec r =
     (case register L spec r of
        (None, r') \<Rightarrow> True
      | (Some err, r') \<Rightarrow> map_of (handlers r) (Name spec) \<noteq> None \<and> handlers r' = handlers r)"

text \<open>
  \<open>doHandle\<close>. The method \<open>Handle\<close> of a handler is defined outside the given sources
  and is the parameter \<open>handle\<close>: it acts on the handler's collector, whose values live
  with the library.
\<close>

definition doHandle ::
  "(MetricHandler \<Rightarrow> Metric \<Rightarrow> 's \<Rightarrow> error option \<times> 's) \<Rightarrow> Metric \<Rightarrow> 's ireg
     \<Rightarrow> error option \<times> 's ireg" where
  "doHandle handle metric r =
     (case map_of (handlers r) (metric_Name metric) of
        None \<Rightarrow> (Some (HandleNotExist (metric_Name metric)), r)
      | Some handler \<Rightarrow>
          (case handle handler metric (registerer r) of
             (err, s') \<Rightarrow> (err, r\<lparr>registerer := s'\<rparr>)))"

text \<open>\<open>Handle\<close> takes the mutex and calls \<open>doHandle\<close>.\<close>

definition Handle ::
  "(MetricHandler \<Rightarrow> Metric \<Rightarrow> 's \<Rightarrow> error option \<times> 's) \<Rightarrow> Metric \<Rightarrow> 's ireg
     \<Rightarrow> error option \<times> 's ireg" where
  "Handle handle metric r = doHandle handle metric r"

section \<open>The decoder worker (prom\_multi\_proc.go, \<open>DataParser\<close>)\<close>

text \<open>
  What a worker has done so far: the updates it has sent on \<open>metricCh\<close>, in order, the
  number of times it has called \<open>CountMetric("error")\<close>, and the errors it has logged.
\<close>

record parser =
  metricCh :: "Metric list"
  errors :: nat
  logged :: "error list"

text \<open>
  One round of the loop of \<open>DataParser\<close>, for the payload \<open>data\<close> received from
  \<open>dataCh\<close>. \<open>json.Unmarshal\<close> into a fresh slice of \<open>Metric\<close> is the parameter
  \<open>unmarshal\<close>.
\<close>

fun send_all :: "Metric list \<Rightarrow> parser \<Rightarrow> parser" where
  "send_all [] p = p"
| "send_all (m # ms) p = send_all ms (p\<lparr>metricCh := metricCh p @ [m]\<rparr>)"

definition DataParser_round :: "(string \<Rightarrow> error + Metric list) \<Rightarrow> string \<Rightarrow> parser \<Rightarrow> parser" where
  "DataParser_round unmarshal data p =
     (case unmarshal data of
        Inl err \<Rightarrow> p\<lparr>errors := errors p + 1, logged := logged p @ [err]\<rparr>
      | Inr metrics \<Rightarrow> send_all metrics p)"

text \<open>The loop runs for as long as payloads arrive: here, over the payloads received.\<close>

fun DataParser :: "(string \<Rightarrow> error + Metric list) \<Rightarrow> string list \<Rightarrow> parser \<Rightarrow> parser" where
  "DataParser unmarshal [] p = p"
| "DataParser unmarshal (data # rest) p = DataParser unmarshal rest (DataParser_round unmarshal data p)"

section \<open>A library instance to run the model on\<close>

text \<open>
  A small instance of the library parameters: the digest is the identity (so different
  texts have different digests), a few floats print as Go prints them and the other finite
  ones as \<open>f\<close>, \<open>ParseFloat\<close> knows a few literals, and the registerer is the list of registered collectors, which refuses to
  register a collector twice and to unregister one that is not registered.
\<close>

definition example_lib :: "collector list lib" where
  "example_lib =
     \<lparr>md5_Sum = (\<lambda>s. s),
      fmt_float64 =
        (\<lambda>f. case f of
               Float x \<Rightarrow>
                 (if x = 0 then ''0'' else if x = 0.01 then ''0.01'' else if x = 0.05 then ''0.05''
                  else if x = 0.5 then ''0.5'' else if x = 1 then ''1'' else ''f'')
             | NegZero \<Rightarrow> ''-0'' | PosInf \<Rightarrow> ''+Inf'' | NegInf \<Rightarrow> ''-Inf''
             | NaN \<Rightarrow> ''NaN''),
      strconv_ParseFloat =
        (\<lambda>s. if s = ''0.5'' then Inr (Float 0.5)
             else if s = ''0.9'' then Inr (Float 0.9)
             else if s = ''NaN'' then Inr NaN
             else Inl (LibraryError ''invalid syntax'')),
      prometheus_Register =
        (\<lambda>c s. if c \<in> set s then (Some (LibraryError ''duplicate metrics collector''), s)
               else (None, c # s)),
      prometheus_Unregister =
        (\<lambda>c s. if c \<in> set s then (True, removeAll c s) else (False, s))\<rparr>"

text \<open>The registry before and after a first registration, and a changed spec.\<close>

definition counter_ab :: MetricSpec where
  "counter_ab = \<lparr>Type = ''counter'', Name = ''ab'', Help = ''x'', Labels = [], Buckets = [],
                 Objectives = []\<rparr>"

definition counter_ab_changed :: MetricSpec where
  "counter_ab_changed = counter_ab\<lparr>Help := ''y''\<rparr>"

definition registry_ab :: "collector list ireg" where
  "registry_ab =
     \<lparr>handlers =
        [(''ab'', CounterHandler counter_ab (NewCounter \<lparr>opts_Name = ''ab'', opts_Help = ''x''\<rparr>))],
      registerer = [NewCounter \<lparr>opts_Name = ''ab'', opts_Help = ''x''\<rparr>]\<rparr>"

text \<open>The same registry when the registerer no longer holds the collector.\<close>

definition registry_ab_stale :: "collector list ireg" where
  "registry_ab_stale = registry_ab\<lparr>registerer := []\<rparr>"

text \<open>A counter vector whose last label is not in the identifier grammar.\<close>

definition counter_vec_ab :: MetricSpec where
  "counter_vec_ab = \<lparr>Type = ''counter'', Name = ''ab'', Help = ''x'', Labels = [''one'', ''Two''],
                     Buckets = [], Objectives = []\<rparr>"

text \<open>
  A summary, the same summary with an objectives key that is not a number, and the registry
  after registering the first.
\<close>

definition summary_ab :: MetricSpec where
  "summary_ab = \<lparr>Type = ''summary'', Name = ''ab'', Help = ''x'', Labels = [], Buckets = [],
                 Objectives = [(''0.5'', Float 0.05)]\<rparr>"

definition summary_ab_unparsed :: MetricSpec where
  "summary_ab_unparsed = summary_ab\<lparr>Objectives := [(''half'', Float 0.05)]\<rparr>"

definition registry_summary_ab :: "collector list ireg" where
  "registry_summary_ab =
     \<lparr>handlers =
        [(''ab'', SummaryHandler summary_ab
            (NewSummary \<lparr>sopts_Name = ''ab'', sopts_Help = ''x'',
                          sopts_Objectives = [(Float 0.5, Float 0.05)]\<rparr>))],
      registerer =
        [NewSummary \<lparr>sopts_Name = ''ab'', sopts_Help = ''x'',
                      sopts_Objectives = [(Float 0.5, Float 0.05)]\<rparr>]\<rparr>"

text \<open>
  Two summaries with different names and the same type, help, labels, buckets and
  objectives, the objectives listed in a different order.
\<close>

definition summary_cd :: MetricSpec where
  "summary_cd = \<lparr>Type = ''summary'', Name = ''cd'', Help = ''x'', Labels = [''one''],
                 Buckets = [Float 0.5, Float 1],
                 Objectives = [(''0.9'', Float 0.01), (''0.5'', Float 0.05)]\<rparr>"

definition summary_ef :: MetricSpec where
  "summary_ef = \<lparr>Type = ''summary'', Name = ''ef'', Help = ''x'', Labels = [''one''],
                 Buckets = [Float 0.5, Float 1],
                 Objectives = [(''0.5'', Float 0.05), (''0.9'', Float 0.01)]\<rparr>"

text \<open>Two histograms that differ in the sign of their zero bucket.\<close>

definition histogram_zero :: MetricSpec where
  "histogram_zero = \<lparr>Type = ''histogram'', Name = ''ab'', Help = ''x'', Labels = [],
                     Buckets = [Float 0], Objectives = []\<rparr>"

definition histogram_negzero :: MetricSpec where
  "histogram_negzero = histogram_zero\<lparr>Buckets := [NegZero]\<rparr>"

text \<open>
  The library instance with a registerer that refuses every \<open>Unregister\<close>, two more
  counters (the name of the second is not in the identifier grammar), and the registry
  holding \<open>ab\<close> and \<open>cd\<close>.
\<close>

definition refusing_lib :: "collector list lib" where
  "refusing_lib = example_lib\<lparr>prometheus_Unregister := (\<lambda>c s. (False, s))\<rparr>"

definition counter_cd :: MetricSpec where
  "counter_cd = \<lparr>Type = ''counter'', Name = ''cd'', Help = ''x'', Labels = [], Buckets = [],
                 Objectives = []\<rparr>"

definition counter_Bad :: MetricSpec where
  "counter_Bad = \<lparr>Type = ''counter'', Name = ''Bad'', Help = ''x'', Labels = [], Buckets = [],
                 Objectives = []\<rparr>"

definition registry_ab_cd :: "collector list ireg" where
  "registry_ab_cd =
     \<lparr>handlers =
        [(''ab'', CounterHandler counter_ab (NewCounter \<lparr>opts_Name = ''ab'', opts_Help = ''x''\<rparr>)),
         (''cd'', CounterHandler counter_cd (NewCounter \<lparr>opts_Name = ''cd'', opts_Help = ''x''\<rparr>))],
      registerer = [NewCounter \<lparr>opts_Name = ''cd'', opts_Help = ''x''\<rparr>,
                    NewCounter \<lparr>opts_Name = ''ab'', opts_Help = ''x''\<rparr>]\<rparr>"

text \<open>
  A third counter, the registry holding all three, and the library instance with a
  registerer that accepts an \<open>Unregister\<close> and still refuses to register the collector
  again.
\<close>

definition counter_ef :: MetricSpec where
  "counter_ef = \<lparr>Type = ''counter'', Name = ''ef'', Help = ''x'', Labels = [], Buckets = [],
                 Objectives = []\<rparr>"

definition registry_ab_cd_ef :: "collector list ireg" where
  "registry_ab_cd_ef =
     \<lparr>handlers =
        [(''ab'', CounterHandler counter_ab (NewCounter \<lparr>opts_Name = ''ab'', opts_Help = ''x''\<rparr>)),
         (''cd'', CounterHandler counter_cd (NewCounter \<lparr>opts_Name = ''cd'', opts_Help = ''x''\<rparr>)),
         (''ef'', CounterHandler counter_ef (NewCounter \<lparr>opts_Name = ''ef'', opts_Help = ''x''\<rparr>))],
      registerer = [NewCounter \<lparr>opts_Name = ''ef'', opts_Help = ''x''\<rparr>,
                    NewCounter \<lparr>opts_Name = ''cd'', opts_Help = ''x''\<rparr>,
                    NewCounter \<lparr>opts_Name = ''ab'', opts_Help = ''x''\<rparr>]\<rparr>"

definition sticky_lib :: "collector list lib" where
  "sticky_lib = example_lib\<lparr>prometheus_Unregister := (\<lambda>c s. (c \<in> set s, s))\<rparr>"

text \<open>
  Two updates, a decoder that knows one payload carrying both and the empty array, and a
  worker that has done nothing yet.
\<close>

definition inc_ab :: Metric where
  "inc_ab = \<lparr>metric_Name = ''ab'', LabelValues = [], Method = ''inc'', Value = Float 0\<rparr>"

definition add_cd :: Metric where
  "add_cd = \<lparr>metric_Name = ''cd'', LabelValues = [''1''], Method = ''add'', Value = Float 39\<rparr>"

definition example_Unmarshal :: "string \<Rightarrow> error + Metric list" where
  "example_Unmarshal data =
     (if data = ''[inc_ab,add_cd]'' then Inr [inc_ab, add_cd]
      else if data = ''[]'' then Inr []
      else Inl (LibraryError ''invalid character''))"

definition parser0 :: parser where
  "parser0 = \<lparr>metricCh = [], errors = 0, logged = []\<rparr>"

text \<open>What a worker forwards for one payload: the decoded updates, or nothing.\<close>

definition forwarded :: "(string \<Rightarrow> error + Metric list) \<Rightarrow> string \<Rightarrow> Metric list" where
  "forwarded unmarshal data = (case unmarshal data of Inl err \<Rightarrow> [] | Inr metrics \<Rightarrow> metrics)"

section \<open>The registry invariant\<close>

text \<open>
  Every handler is stored under the name of its own spec, and no two stored handlers have
  the same spec name.
\<close>

definition names_match :: "(string \<times> MetricHandler) list \<Rightarrow> bool" where
  "names_match hs = list_all (\<lambda>(name, handler). Name (Spec handler) = name) hs"

definition no_shared_name :: "(string \<times> MetricHandler) list \<Rightarrow> bool" where
  "no_shared_name hs = distinct (map (\<lambda>(name, handler). Name (Spec handler)) hs)"

definition reg_inv :: "'s ireg \<Rightarrow> bool" where
  "reg_inv r = (names_match (handlers r) \<and> no_shared_name (handlers r))"

section \<open>The matcher decides the language\<close>

lemma nullable_lang: "nullable r \<longleftrightarrow> [] \<in> lang r"
  by (induction r) (auto intro: star.star_nil)

lemma lang_CatI: "u \<in> lang r \<Longrightarrow> v \<in> lang s \<Longrightarrow> u @ v \<in> lang (Cat r s)"
  by auto

lemma star_cons_split:
  assumes "w \<in> star A" and "w = c # x"
  shows "\<exists>u v. x = u @ v \<and> c # u \<in> A \<and> v \<in> star A"
  using assms
proof (induction arbitrary: x rule: star.induct)
  case star_nil
  then show ?case by simp
next
  case (star_app u v)
  show ?case
  proof (cases u)
    case Nil
    with star_app show ?thesis by simp
  next
    case (Cons d u')
    with star_app.prems have "d = c" and "x = u' @ v" by simp_all
    with Cons star_app.hyps show ?thesis by blast
  qed
qed

lemma star_cons_iff:
  "c # x \<in> star A \<longleftrightarrow> (\<exists>u v. x = u @ v \<and> c # u \<in> A \<and> v \<in> star A)"
proof
  assume "c # x \<in> star A"
  then show "\<exists>u v. x = u @ v \<and> c # u \<in> A \<and> v \<in> star A"
    using star_cons_split by blast
next
  assume "\<exists>u v. x = u @ v \<and> c # u \<in> A \<and> v \<in> star A"
  then obtain u v where "x = u @ v" "c # u \<in> A" "v \<in> star A" by blast
  then have "(c # u) @ v \<in> star A" by (intro star.star_app)
  with \<open>x = u @ v\<close> show "c # x \<in> star A" by simp
qed

lemma deriv_lang: "x \<in> lang (deriv c r) \<longleftrightarrow> c # x \<in> lang r"
proof (induction r arbitrary: x)
  case (Cat r s)
  show ?case
  proof
    assume "x \<in> lang (deriv c (Cat r s))"
    then consider (left) u v where "x = u @ v" "u \<in> lang (deriv c r)" "v \<in> lang s"
      | (right) "nullable r" "x \<in> lang (deriv c s)"
      by (auto split: if_splits)
    then show "c # x \<in> lang (Cat r s)"
    proof cases
      case left
      then have "c # u \<in> lang r" using Cat.IH(1) by simp
      with left have "(c # u) @ v \<in> lang (Cat r s)" by (intro lang_CatI)
      with left show ?thesis by simp
    next
      case right
      then have "[] \<in> lang r" "c # x \<in> lang s" using Cat.IH(2) nullable_lang by simp_all
      then have "[] @ (c # x) \<in> lang (Cat r s)" by (intro lang_CatI)
      then show ?thesis by simp
    qed
  next
    assume "c # x \<in> lang (Cat r s)"
    then obtain u v where uv: "c # x = u @ v" "u \<in> lang r" "v \<in> lang s" by auto
    show "x \<in> lang (deriv c (Cat r s))"
    proof (cases u)
      case Nil
      with uv have "nullable r" "x \<in> lang (deriv c s)"
        using Cat.IH(2) nullable_lang by simp_all
      then show ?thesis by simp
    next
      case (Cons d u')
      with uv have "u' \<in> lang (deriv c r)" "x = u' @ v" using Cat.IH(1) by simp_all
      with uv show ?thesis by auto
    qed
  qed
next
  case (Star r)
  show ?case
    using Star.IH by (auto simp: star_cons_iff)
qed auto

lemma MatchString_lang: "MatchString r s \<longleftrightarrow> s \<in> lang r"
  by (induction s arbitrary: r) (simp_all add: nullable_lang deriv_lang)

section \<open>What \<open>metricRe\<close> accepts\<close>

lemma star_Class: "w \<in> star (lang (Class rs)) \<longleftrightarrow> list_all (in_class rs) w"
proof
  assume "w \<in> star (lang (Class rs))"
  then show "list_all (in_class rs) w"
    by (induction rule: star.induct) auto
next
  assume "list_all (in_class rs) w"
  then show "w \<in> star (lang (Class rs))"
  proof (induction w)
    case Nil
    show ?case by (rule star.star_nil)
  next
    case (Cons c w)
    then have "[c] \<in> lang (Class rs)" "w \<in> star (lang (Class rs))" by simp_all
    then have "[c] @ w \<in> star (lang (Class rs))" by (rule star.star_app)
    then show ?case by simp
  qed
qed

lemma lang_Plus_Class:
  "w \<in> lang (Plus (Class rs)) \<longleftrightarrow> w \<noteq> [] \<and> list_all (in_class rs) w"
proof
  assume "w \<in> lang (Plus (Class rs))"
  then obtain c v where "w = [c] @ v" "in_class rs c" "v \<in> star (lang (Class rs))"
    by (auto simp: Plus_def)
  then show "w \<noteq> [] \<and> list_all (in_class rs) w"
    using star_Class [of v rs] by simp
next
  assume "w \<noteq> [] \<and> list_all (in_class rs) w"
  then obtain c v where w: "w = c # v" and "in_class rs c" "list_all (in_class rs) v"
    by (cases w) auto
  then have "[c] \<in> lang (Class rs)" "v \<in> lang (Star (Class rs))"
    using star_Class [of v rs] by simp_all
  then have "[c] @ v \<in> lang (Cat (Class rs) (Star (Class rs)))"
    by (rule lang_CatI)
  with w show "w \<in> lang (Plus (Class rs))"
    by (simp add: Plus_def)
qed

lemma in_class_lower: "in_class [(CHR ''a'', CHR ''z'')] c = is_lower c"
  by (simp add: in_class_def is_lower_def)

lemma in_class_ident:
  "in_class [(CHR ''0'', CHR ''9''), (CHR ''a'', CHR ''z''), (CHR ''_'', CHR ''_'')] c = ident_char c"
  by (auto simp: in_class_def ident_char_def is_lower_def is_digit_def)

lemma lang_metricRe:
  "s \<in> lang metricRe \<longleftrightarrow> identifier_grammar s \<and> 2 \<le> length s"
proof
  assume "s \<in> lang metricRe"
  then obtain u v where s: "s = u @ v" and u: "u \<noteq> []" "list_all is_lower u"
    and v: "v \<noteq> []" "list_all ident_char v"
    unfolding metricRe_def lang.simps(5) lang_Plus_Class in_class_lower in_class_ident
    by blast
  from u obtain c u' where cu: "u = c # u'" by (cases u) auto
  from v obtain d v' where dv: "v = d # v'" by (cases v) auto
  have "list_all ident_char u'"
    using u cu by (auto simp: list_all_iff ident_char_def)
  with s u v cu dv show "identifier_grammar s \<and> 2 \<le> length s"
    by (simp add: identifier_grammar_def)
next
  assume a: "identifier_grammar s \<and> 2 \<le> length s"
  then obtain c d w where s: "s = c # d # w"
    by (cases s; cases "tl s") auto
  with a have "is_lower c" "list_all ident_char (d # w)"
    by (simp_all add: identifier_grammar_def)
  then have "[c] \<in> lang (Plus (Class [(CHR ''a'', CHR ''z'')]))"
    and "d # w \<in> lang (Plus (Class [(CHR ''0'', CHR ''9''), (CHR ''a'', CHR ''z''), (CHR ''_'', CHR ''_'')]))"
    unfolding lang_Plus_Class in_class_lower in_class_ident by simp_all
  then have "[c] @ (d # w) \<in> lang metricRe"
    unfolding metricRe_def by (rule lang_CatI)
  with s show "s \<in> lang metricRe" by simp
qed

text \<open>
  C4 (as the code has it): \<open>validateMetric\<close> accepts a string exactly when it matches the
  identifier grammar (lowercase letters, digits and underscores, starting with a lowercase
  letter) and has at least two characters: \<open>[a-z]+\<close> and \<open>[0-9a-z_]+\<close> each take at
  least one character.
\<close>

theorem validateMetric_accepts:
  "validateMetric s = None \<longleftrightarrow> identifier_grammar s \<and> 2 \<le> length s"
  by (simp add: validateMetric_def MatchString_lang lang_metricRe)

theorem validateMetric_accepts_witness:
  "validateMetric ''a1_b'' = None \<and> identifier_grammar ''a1_b'' \<and> 2 \<le> length ''a1_b''"
  using validateMetric_accepts [of "''a1_b''"]
  by (simp add: identifier_grammar_def is_lower_def ident_char_def is_digit_def)

text \<open>
  C4 (as stated) fails: the single-letter name \<open>a\<close> matches the identifier grammar and
  \<open>validateMetric\<close> rejects it.
\<close>

theorem validateMetric_single_letter_rejected:
  "identifier_grammar ''a'' \<and> validateMetric ''a'' = Some (InvalidMetricName ''a'')"
  by (simp add: identifier_grammar_def is_lower_def validateMetric_def metricRe_def Plus_def
      in_class_def)

section \<open>The registry invariant is preserved\<close>

lemma buildHandler_Spec: "buildHandler L spec = Inr h \<Longrightarrow> Spec h = spec"
  by (auto simp: buildHandler_def Let_def split: if_splits option.splits prod.splits)

lemma set_update_subset: "set (AList.update k v al) \<subseteq> insert (k, v) (set al)"
  by (induction al) auto

lemma set_delete_subset: "set (AList.delete k al) \<subseteq> set al"
  by (auto simp: AList.delete_eq)

lemma names_match_keys:
  "names_match hs \<Longrightarrow> map (\<lambda>(name, handler). Name (Spec handler)) hs = map fst hs"
  by (induction hs) (auto simp: names_match_def)

lemma inv_iff:
  "names_match hs \<and> no_shared_name hs \<longleftrightarrow>
   (\<forall>(n, h) \<in> set hs. Name (Spec h) = n) \<and> distinct (map fst hs)"
proof (cases "names_match hs")
  case True
  then show ?thesis
    unfolding no_shared_name_def names_match_keys [OF True]
    by (auto simp: names_match_def list_all_iff)
next
  case False
  then show ?thesis
    by (auto simp: names_match_def list_all_iff)
qed

lemma reg_inv_registerer [simp]: "reg_inv (r\<lparr>registerer := s\<rparr>) = reg_inv r"
  by (simp add: reg_inv_def)

lemma inv_update:
  assumes "names_match hs \<and> no_shared_name hs" "Name (Spec h) = k"
  shows "names_match (AList.update k h hs) \<and> no_shared_name (AList.update k h hs)"
  using assms set_update_subset [of k h hs] unfolding inv_iff
  by (auto simp: distinct_update)

lemma inv_delete:
  assumes "names_match hs \<and> no_shared_name hs"
  shows "names_match (AList.delete k hs) \<and> no_shared_name (AList.delete k hs)"
  using assms set_delete_subset [of k hs] unfolding inv_iff
  by (auto simp: distinct_delete)

lemma register_collector_inv:
  "reg_inv r \<Longrightarrow> Name (Spec h) = Name spec \<Longrightarrow> reg_inv (snd (register_collector L spec h r))"
  using inv_update [of "handlers r" h "Name spec"]
  by (auto simp: register_collector_def reg_inv_def split: prod.splits option.splits)

lemma map_of_names_match:
  "names_match hs \<Longrightarrow> map_of hs k = Some h \<Longrightarrow> Name (Spec h) = k"
  by (auto simp: names_match_def list_all_iff dest!: map_of_SomeD)

lemma register_inv: "reg_inv r \<Longrightarrow> reg_inv (snd (register L spec r))"
proof -
  assume inv: "reg_inv r"
  show ?thesis
  proof (cases "validateMetric (Name spec)")
    case (Some e)
    with inv show ?thesis by (simp add: register_def)
  next
    case None
    note valid = this
    show ?thesis
    proof (cases "map_of (handlers r) (Name spec)")
      case None
      with valid inv show ?thesis
        by (auto simp: register_def split: sum.splits
            intro!: register_collector_inv dest: buildHandler_Spec)
    next
      case (Some h)
      with inv have nm: "Name (Spec h) = Name spec"
        by (auto simp: reg_inv_def dest: map_of_names_match)
      have del: "reg_inv (r\<lparr>handlers := AList.delete (Name spec) (handlers r), registerer := s\<rparr>)" for s
        using inv inv_delete [of "handlers r" "Name spec"] by (simp add: reg_inv_def)
      show ?thesis
        using valid Some inv nm del
        by (auto simp: register_def split: prod.splits bool.splits
            intro!: register_collector_inv)
    qed
  qed
qed

lemma unregister_inv: "reg_inv r \<Longrightarrow> reg_inv (snd (unregister L name r))"
  using inv_delete [of "handlers r" name]
  by (auto simp: unregister_def reg_inv_def split: option.splits prod.splits bool.splits)

lemma Reload_register_inv:
  "reg_inv r \<Longrightarrow> reg_inv (snd (snd (Reload_register L specs acc out r)))"
proof (induction specs arbitrary: acc out r)
  case Nil
  then show ?case by simp
next
  case (Cons spec specs)
  from Cons.prems have "reg_inv (snd (register L spec r))" by (rule register_inv)
  then show ?case
    by (auto split: prod.splits option.splits intro: Cons.IH)
qed

lemma Reload_unregister_inv:
  "reg_inv r \<Longrightarrow> reg_inv (snd (Reload_unregister L ns out r))"
proof (induction ns arbitrary: out r)
  case Nil
  then show ?case by simp
next
  case (Cons n ns)
  from Cons.prems have "reg_inv (snd (unregister L n r))" by (rule unregister_inv)
  then show ?case
    by (auto split: prod.splits option.splits intro: Cons.IH)
qed

lemma Reload_inv: "reg_inv r \<Longrightarrow> reg_inv (snd (Reload L specs r))"
  using Reload_register_inv [of r L specs "[]" "[]"]
  by (auto simp: Reload_def split: prod.splits intro: Reload_unregister_inv)

lemma doHandle_inv: "reg_inv r \<Longrightarrow> reg_inv (snd (doHandle handle metric r))"
  by (auto simp: doHandle_def reg_inv_def split: option.splits prod.splits)

lemma NewRegistry_inv: "reg_inv (NewRegistry s)"
  by (simp add: reg_inv_def NewRegistry_def names_match_def no_shared_name_def)

text \<open>
  C9: if every handler is stored under the name of its own spec and no two stored handlers
  share a name, the same holds after \<open>register\<close>, \<open>unregister\<close>, \<open>Reload\<close> and
  \<open>Handle\<close>, whatever they return.
\<close>

theorem registry_invariant_preserved:
  assumes "reg_inv r"
  shows "reg_inv (snd (register L spec r)) \<and> reg_inv (snd (unregister L name r)) \<and>
         reg_inv (snd (Reload L specs r)) \<and> reg_inv (snd (Handle handle metric r))"
  using assms register_inv unregister_inv Reload_inv doHandle_inv
  unfolding Handle_def by blast

theorem registry_invariant_preserved_witness:
  "reg_inv registry_ab \<and>
   reg_inv (snd (register example_lib counter_ab_changed registry_ab)) \<and>
   reg_inv (snd (unregister example_lib ''ab'' registry_ab)) \<and>
   reg_inv (snd (Reload example_lib [counter_ab_changed] registry_ab)) \<and>
   reg_inv (snd (Handle (\<lambda>h m s. (None, s)) inc_ab registry_ab))"
proof -
  have "reg_inv registry_ab"
    by (simp add: reg_inv_def registry_ab_def names_match_def no_shared_name_def counter_ab_def)
  then show ?thesis
    using registry_invariant_preserved [of registry_ab] by simp
qed

section \<open>\<open>register\<close> and \<open>unregister\<close>\<close>

lemma validateMetric_ab: "validateMetric ''ab'' = None"
  by (simp add: validateMetric_def metricRe_def Plus_def in_class_def)

lemma register_ab_fresh: "register example_lib counter_ab (NewRegistry []) = (None, registry_ab)"
  by (simp add: register_def register_collector_def buildHandler_def counter_ab_def NewRegistry_def
      validateMetric_ab example_lib_def registry_ab_def)

lemma Hash_ab_differs: "Hash example_lib counter_ab_changed \<noteq> Hash example_lib counter_ab"
  by (simp add: Hash_def Hash_writes_def counter_ab_def counter_ab_changed_def example_lib_def Sprintf_strings_def
      Sprintf_floats_def Sprintf_map_def Sprintf_x_def hexdigit_def)

text \<open>
  When the name has a handler and the fingerprints differ, \<open>register\<close> unregisters the
  collector of the stored handler, registers that same collector again and stores the same
  handler again: \<open>buildHandler\<close> is not called on this path.
\<close>

lemma register_reuses_old_handler:
  assumes "validateMetric (Name spec) = None"
    and "map_of (handlers r) (Name spec) = Some h"
    and "Hash L (Spec h) \<noteq> Hash L spec"
    and "prometheus_Unregister L (Collector h) (registerer r) = (True, s1)"
    and "prometheus_Register L (Collector h) s1 = (None, s2)"
  shows "register L spec r =
           (None, r\<lparr>handlers := AList.update (Name spec) h (AList.delete (Name spec) (handlers r)),
                      registerer := s2\<rparr>)"
  using assms by (simp add: register_def register_collector_def)

text \<open>
  C1 (the code at a failing input): the registry holds the handler made from the counter
  \<open>ab\<close> with help text \<open>x\<close>; registering the spec with help text \<open>y\<close>, whose
  fingerprint differs, succeeds and leaves the registry as it was: the handler stored under
  \<open>ab\<close> still has the old spec, not the new one.
\<close>

theorem register_changed_spec_keeps_old_handler:
  "register example_lib counter_ab (NewRegistry []) = (None, registry_ab) \<and>
   Hash example_lib counter_ab_changed \<noteq> Hash example_lib counter_ab \<and>
   register example_lib counter_ab_changed registry_ab = (None, registry_ab) \<and>
   map_option Spec (map_of (handlers registry_ab) ''ab'') = Some counter_ab \<and>
   counter_ab \<noteq> counter_ab_changed"
proof (intro conjI)
  show "register example_lib counter_ab (NewRegistry []) = (None, registry_ab)"
    by (rule register_ab_fresh)
  show differs: "Hash example_lib counter_ab_changed \<noteq> Hash example_lib counter_ab"
    by (rule Hash_ab_differs)
  let ?h = "CounterHandler counter_ab (NewCounter \<lparr>opts_Name = ''ab'', opts_Help = ''x''\<rparr>)"
  have "register example_lib counter_ab_changed registry_ab =
          (None, registry_ab\<lparr>handlers := AList.update (Name counter_ab_changed) ?h
                      (AList.delete (Name counter_ab_changed) (handlers registry_ab)),
                    registerer := [Collector ?h]\<rparr>)"
  proof (rule register_reuses_old_handler)
    show "validateMetric (Name counter_ab_changed) = None"
      by (simp add: counter_ab_changed_def counter_ab_def validateMetric_ab)
    show "map_of (handlers registry_ab) (Name counter_ab_changed) = Some ?h"
      by (simp add: registry_ab_def counter_ab_changed_def counter_ab_def)
    show "Hash example_lib (Spec ?h) \<noteq> Hash example_lib counter_ab_changed"
      using differs by simp
    show "prometheus_Unregister example_lib (Collector ?h) (registerer registry_ab) = (True, [])"
      by (simp add: example_lib_def registry_ab_def)
    show "prometheus_Register example_lib (Collector ?h) [] = (None, [Collector ?h])"
      by (simp add: example_lib_def)
  qed
  then show "register example_lib counter_ab_changed registry_ab = (None, registry_ab)"
    by (simp add: registry_ab_def counter_ab_changed_def counter_ab_def AList.delete_eq)
  show "map_option Spec (map_of (handlers registry_ab) ''ab'') = Some counter_ab"
    by (simp add: registry_ab_def)
  show "counter_ab \<noteq> counter_ab_changed"
    by (simp add: counter_ab_def counter_ab_changed_def)
qed

text \<open>
  C5: \<open>unregister\<close> of a name without a handler returns an error and leaves the registry
  as it is; when the registerer refuses to unregister the handler's collector it returns an
  error and the map is unchanged; when the registerer accepts, it returns no error and the
  entry is removed from the map.
\<close>

theorem unregister_cases:
  "(map_of (handlers r) name = None \<longrightarrow>
      unregister L name r = (Some (UnregisterNotExist name), r)) \<and>
   (\<forall>h. map_of (handlers r) name = Some h \<longrightarrow>
      (\<not> fst (prometheus_Unregister L (Collector h) (registerer r)) \<longrightarrow>
         fst (unregister L name r) = Some (FailedUnregister name) \<and>
         handlers (snd (unregister L name r)) = handlers r) \<and>
      (fst (prometheus_Unregister L (Collector h) (registerer r)) \<longrightarrow>
         fst (unregister L name r) = None \<and>
         handlers (snd (unregister L name r)) = AList.delete name (handlers r) \<and>
         map_of (handlers (snd (unregister L name r))) name = None))"
  by (auto simp: unregister_def AList.delete_conv' split: prod.splits bool.splits)

theorem unregister_cases_witness:
  "map_of (handlers registry_ab) ''cd'' = None \<and>
   unregister example_lib ''cd'' registry_ab = (Some (UnregisterNotExist ''cd''), registry_ab) \<and>
   map_of (handlers registry_ab_stale) ''ab'' \<noteq> None \<and>
   fst (unregister example_lib ''ab'' registry_ab_stale) = Some (FailedUnregister ''ab'') \<and>
   handlers (snd (unregister example_lib ''ab'' registry_ab_stale)) = handlers registry_ab_stale \<and>
   map_of (handlers registry_ab) ''ab'' \<noteq> None \<and>
   fst (unregister example_lib ''ab'' registry_ab) = None \<and>
   handlers (snd (unregister example_lib ''ab'' registry_ab)) = []"
proof -
  let ?h = "CounterHandler counter_ab (NewCounter \<lparr>opts_Name = ''ab'', opts_Help = ''x''\<rparr>)"
  have a: "map_of (handlers registry_ab) ''cd'' = None"
    by (simp add: registry_ab_def)
  have b: "map_of (handlers registry_ab_stale) ''ab'' = Some ?h"
    by (simp add: registry_ab_stale_def registry_ab_def)
  have b': "\<not> fst (prometheus_Unregister example_lib (Collector ?h) (registerer registry_ab_stale))"
    by (simp add: registry_ab_stale_def example_lib_def)
  have c: "map_of (handlers registry_ab) ''ab'' = Some ?h"
    by (simp add: registry_ab_def)
  have c': "fst (prometheus_Unregister example_lib (Collector ?h) (registerer registry_ab))"
    by (simp add: registry_ab_def example_lib_def)
  have d: "AList.delete ''ab'' (handlers registry_ab) = []"
    by (simp add: registry_ab_def AList.delete_eq)
  show ?thesis
    using unregister_cases [of registry_ab "''cd''" example_lib]
      unregister_cases [of registry_ab_stale "''ab''" example_lib]
      unregister_cases [of registry_ab "''ab''" example_lib]
      a b b' c c' d
    by simp
qed

text \<open>A successful \<open>register_collector\<close> stores the handler under the spec's name.\<close>

lemma register_collector_stores:
  "register_collector L spec h r = (None, r') \<Longrightarrow>
   map_of (handlers r') (Name spec) = Some h"
  by (auto simp: register_collector_def AList.update_conv' split: prod.splits option.splits)

text \<open>
  C6: registering a spec whose name has a handler with the same fingerprint returns no error
  and leaves the registry, and so its names and the stored handler with its collector, as
  they are; in particular a second \<open>register\<close> of a spec right after a first one that
  made its handler changes nothing.
\<close>

theorem register_same_spec_noop:
  "(validateMetric (Name spec) = None \<and> map_of (handlers r) (Name spec) = Some h \<and>
    Hash L (Spec h) = Hash L spec \<longrightarrow> register L spec r = (None, r)) \<and>
   (map_of (handlers r) (Name spec) = None \<and> register L spec r = (None, r') \<longrightarrow>
      register L spec r' = (None, r'))"
proof (intro conjI impI)
  assume "validateMetric (Name spec) = None \<and> map_of (handlers r) (Name spec) = Some h \<and>
    Hash L (Spec h) = Hash L spec"
  then show "register L spec r = (None, r)"
    by (simp add: register_def)
next
  assume a: "map_of (handlers r) (Name spec) = None \<and> register L spec r = (None, r')"
  then have valid: "validateMetric (Name spec) = None"
    by (auto simp: register_def split: option.splits)
  with a obtain h' where built: "buildHandler L spec = Inr h'"
    and stored: "register_collector L spec h' r = (None, r')"
    by (auto simp: register_def split: sum.splits)
  from built have "Spec h' = spec" by (rule buildHandler_Spec)
  moreover from stored have "map_of (handlers r') (Name spec) = Some h'"
    by (rule register_collector_stores)
  ultimately show "register L spec r' = (None, r')"
    using valid by (simp add: register_def)
qed

theorem register_same_spec_noop_witness:
  "validateMetric (Name counter_ab) = None \<and>
   map_of (handlers registry_ab) (Name counter_ab) \<noteq> None \<and>
   map_of (handlers (NewRegistry [])) (Name counter_ab) = None \<and>
   register example_lib counter_ab (NewRegistry []) = (None, registry_ab) \<and>
   register example_lib counter_ab registry_ab = (None, registry_ab)"
proof -
  let ?h = "CounterHandler counter_ab (NewCounter \<lparr>opts_Name = ''ab'', opts_Help = ''x''\<rparr>)"
  have v: "validateMetric (Name counter_ab) = None"
    by (simp add: counter_ab_def validateMetric_ab)
  have m: "map_of (handlers registry_ab) (Name counter_ab) = Some ?h"
    by (simp add: registry_ab_def counter_ab_def)
  have s: "Hash example_lib (Spec ?h) = Hash example_lib counter_ab"
    by simp
  have e: "map_of (handlers (NewRegistry [])) (Name counter_ab) = None"
    by (simp add: NewRegistry_def)
  show ?thesis
    using register_same_spec_noop [of counter_ab registry_ab ?h example_lib]
      register_same_spec_noop [of counter_ab "NewRegistry []" ?h example_lib registry_ab]
      v m s e register_ab_fresh
    by simp
qed

section \<open>\<open>validateLabels\<close>\<close>

lemma validateLabels_inner_None:
  "validateLabels_inner labels i j = None \<longleftrightarrow> labels ! i \<notin> set (drop j labels)"
proof (induction labels i j rule: validateLabels_inner.induct)
  case (1 labels i j)
  show ?case
  proof (cases "j < length labels")
    case False
    then show ?thesis by (subst validateLabels_inner.simps) simp
  next
    case True
    then have unfold: "drop j labels = labels ! j # drop (j + 1) labels"
      by (simp add: Cons_nth_drop_Suc)
    show ?thesis
    proof (cases "labels ! i = labels ! j")
      case same: True
      with True unfold show ?thesis
        by (subst validateLabels_inner.simps) simp
    next
      case diff: False
      with True unfold "1.IH" show ?thesis
        by (subst validateLabels_inner.simps) simp
    qed
  qed
qed

lemma validateLabels_outer_None:
  "validateLabels_outer labels i = None \<longleftrightarrow>
   (\<forall>l \<in> set (butlast (drop i labels)). validateMetric l = None) \<and> distinct (drop i labels)"
proof (induction labels i rule: validateLabels_outer.induct)
  case (1 labels i)
  show ?case
  proof (cases "int i < int (length labels) - 1")
    case False
    then have "length (drop i labels) \<le> 1" by simp
    then have "butlast (drop i labels) = [] \<and> distinct (drop i labels)"
      by (cases "drop i labels"; cases "tl (drop i labels)") auto
    with False show ?thesis by (subst validateLabels_outer.simps) simp
  next
    case True
    then have bound: "i + 1 < length labels" by simp
    then have unfold: "drop i labels = labels ! i # drop (i + 1) labels"
      and rest: "drop (i + 1) labels \<noteq> []"
      by (simp_all add: Cons_nth_drop_Suc)
    have goal: "(\<forall>l \<in> set (butlast (drop i labels)). validateMetric l = None) \<and> distinct (drop i labels)
       \<longleftrightarrow> validateMetric (labels ! i) = None \<and> labels ! i \<notin> set (drop (i + 1) labels) \<and>
           (\<forall>l \<in> set (butlast (drop (i + 1) labels)). validateMetric l = None) \<and>
           distinct (drop (i + 1) labels)"
      unfolding unfold using rest by auto
    show ?thesis
    proof (cases "validateMetric (labels ! i)")
      case (Some e)
      with True goal show ?thesis
        by (subst validateLabels_outer.simps) simp
    next
      case None
      note valid = this
      show ?thesis
      proof (cases "validateLabels_inner labels i (i + 1)")
        case (Some e)
        then have "labels ! i \<in> set (drop (i + 1) labels)"
          using validateLabels_inner_None [of labels i "i + 1"] by simp
        with True valid Some goal show ?thesis
          by (subst validateLabels_outer.simps) simp
      next
        case None
        then have "labels ! i \<notin> set (drop (i + 1) labels)"
          using validateLabels_inner_None [of labels i "i + 1"] by simp
        with True valid None goal "1.IH" [OF True valid None] show ?thesis
          by (subst validateLabels_outer.simps) simp
      qed
    qed
  qed
qed

text \<open>
  What \<open>validateLabels\<close> checks: every label but the last is validated against
  \<open>metricRe\<close>, and no two labels are equal. The outer loop stops at \<open>n-1\<close>, so the
  last label is compared with the others and never validated.
\<close>

lemma validateLabels_None:
  "validateLabels labels = None \<longleftrightarrow>
   (\<forall>l \<in> set (butlast labels). validateMetric l = None) \<and> distinct labels"
  by (simp add: validateLabels_def validateLabels_outer_None)

text \<open>
  C3 (the code at a failing input): a counter with the labels \<open>one\<close> and \<open>Two\<close> and
  no handler under its name. \<open>Two\<close> is not in the identifier grammar, and yet
  \<open>validateLabels\<close> accepts the list, the handler is built and \<open>register\<close> succeeds.
\<close>

theorem last_label_not_validated:
  "validateMetric ''Two'' = Some (InvalidMetricName ''Two'') \<and>
   map_of (handlers (NewRegistry [])) (Name counter_vec_ab) = None \<and>
   validateLabels (Labels counter_vec_ab) = None \<and>
   buildHandler example_lib counter_vec_ab =
     Inr (CounterVecHandler counter_vec_ab
            (NewCounterVec \<lparr>opts_Name = ''ab'', opts_Help = ''x''\<rparr> [''one'', ''Two''])) \<and>
   fst (register example_lib counter_vec_ab (NewRegistry [])) = None"
proof -
  have bad: "validateMetric ''Two'' = Some (InvalidMetricName ''Two'')"
    by (simp add: validateMetric_def metricRe_def Plus_def in_class_def)
  have one: "validateMetric ''one'' = None"
    by (simp add: validateMetric_def metricRe_def Plus_def in_class_def)
  have labels: "validateLabels [''one'', ''Two''] = None"
    by (simp add: validateLabels_def validateLabels_outer.simps validateLabels_inner.simps one)
  have built: "buildHandler example_lib counter_vec_ab =
     Inr (CounterVecHandler counter_vec_ab
            (NewCounterVec \<lparr>opts_Name = ''ab'', opts_Help = ''x''\<rparr> [''one'', ''Two'']))"
    by (simp add: buildHandler_def counter_vec_ab_def labels)
  have reg: "fst (register example_lib counter_vec_ab (NewRegistry [])) = None"
  proof -
    have "validateMetric (Name counter_vec_ab) = None"
      by (simp add: counter_vec_ab_def validateMetric_ab)
    then show ?thesis
      by (simp add: register_def built NewRegistry_def)
         (simp add: register_collector_def example_lib_def)
  qed
  show ?thesis
    using bad labels built reg by (simp add: NewRegistry_def counter_vec_ab_def)
qed

section \<open>Objectives of a summary\<close>

lemma validateObjectives_loop_error:
  "snd (validateObjectives_loop L objs res) \<noteq> None \<longleftrightarrow>
   (\<exists>k \<in> fst ` set objs. isl (strconv_ParseFloat L k))"
proof (induction objs arbitrary: res)
  case Nil
  show ?case by simp
next
  case (Cons kv objs)
  obtain k v where kv: "kv = (k, v)" by (cases kv)
  show ?case
  proof (cases "strconv_ParseFloat L k")
    case (Inl err)
    with kv show ?thesis by simp
  next
    case (Inr f)
    with kv Cons.IH [of "mapassign f v res"] show ?thesis by simp
  qed
qed

lemma validateObjectives_loop_result:
  "\<forall>k \<in> fst ` set objs. \<not> isl (strconv_ParseFloat L k) \<Longrightarrow>
   validateObjectives_loop L objs res =
     (foldl (\<lambda>m (k, v). mapassign (projr (strconv_ParseFloat L k)) v m) res objs, None)"
  by (induction objs arbitrary: res) (auto split: sum.splits)

text \<open>
  Where \<open>buildHandler\<close> is called, that is for a name without a handler, a summary with
  an objectives key that does not parse is refused and the registry is left as it is; when
  every key parses the collector gets the objectives under their parsed keys; without
  objectives it gets the default ones and \<open>ParseFloat\<close> is not called.
\<close>

lemma buildHandler_summary_unparsed:
  assumes "Type spec = ''summary''"
    and "\<exists>k \<in> fst ` set (Objectives spec). isl (strconv_ParseFloat L k)"
  shows "\<exists>err. buildHandler L spec = Inl err"
proof -
  from assms(2) have "Objectives spec \<noteq> []" by auto
  moreover from assms(2) obtain res err where
    "validateObjectives L (Objectives spec) = (res, Some err)"
    using validateObjectives_loop_error [of L "Objectives spec" "[]"]
    by (cases "validateObjectives L (Objectives spec)") (auto simp: validateObjectives_def)
  ultimately show ?thesis
    using assms(1) by (simp add: buildHandler_def)
qed

lemma register_summary_unparsed:
  assumes "Type spec = ''summary''"
    and "\<exists>k \<in> fst ` set (Objectives spec). isl (strconv_ParseFloat L k)"
    and "map_of (handlers r) (Name spec) = None"
  shows "\<exists>err. register L spec r = (Some err, r)"
  using buildHandler_summary_unparsed [OF assms(1,2)] assms(3)
  by (auto simp: register_def split: option.splits)

lemma buildHandler_summary_parsed:
  assumes "Type spec = ''summary''"
    and "Objectives spec \<noteq> []"
    and "\<forall>k \<in> fst ` set (Objectives spec). \<not> isl (strconv_ParseFloat L k)"
  shows "buildHandler L spec =
           (let objectives = foldl (\<lambda>m (k, v). mapassign (projr (strconv_ParseFloat L k)) v m) []
                               (Objectives spec);
                opts = \<lparr>sopts_Name = Name spec, sopts_Help = Help spec,
                         sopts_Objectives = objectives\<rparr>
            in if Labels spec = [] then Inr (SummaryHandler spec (NewSummary opts))
               else case validateLabels (Labels spec) of
                      Some err \<Rightarrow> Inl err
                    | None \<Rightarrow> Inr (SummaryVecHandler spec (NewSummaryVec opts (Labels spec))))"
  using assms(1,2) validateObjectives_loop_result [OF assms(3), of "[]"]
  by (simp add: buildHandler_def validateObjectives_def Let_def)

lemma buildHandler_summary_default:
  assumes "Type spec = ''summary''"
    and "Objectives spec = []"
  shows "buildHandler L spec =
           (let opts = \<lparr>sopts_Name = Name spec, sopts_Help = Help spec,
                         sopts_Objectives = [(Float 0.5, Float 0.05), (Float 0.9, Float 0.01),
                                             (Float 0.99, Float 0.001)]\<rparr>
            in if Labels spec = [] then Inr (SummaryHandler spec (NewSummary opts))
               else case validateLabels (Labels spec) of
                      Some err \<Rightarrow> Inl err
                    | None \<Rightarrow> Inr (SummaryVecHandler spec (NewSummaryVec opts (Labels spec))))"
  using assms by (simp add: buildHandler_def defaultObjectives_def Let_def)

text \<open>
  C10 (the code at a failing input): the registry holds a summary \<open>ab\<close>; registering a
  summary \<open>ab\<close> whose only objectives key \<open>half\<close> does not parse returns no error and
  leaves the registry as it was, since with a handler under the name \<open>register\<close> never
  calls \<open>buildHandler\<close>. On the empty registry the same spec is refused.
\<close>

theorem register_unparsed_objectives_on_existing_name:
  "register example_lib summary_ab (NewRegistry []) = (None, registry_summary_ab) \<and>
   strconv_ParseFloat example_lib ''half'' = Inl (LibraryError ''invalid syntax'') \<and>
   register example_lib summary_ab_unparsed registry_summary_ab = (None, registry_summary_ab) \<and>
   register example_lib summary_ab_unparsed (NewRegistry []) =
     (Some (LibraryError ''invalid syntax''), NewRegistry [])"
proof (intro conjI)
  have valid: "validateMetric (Name summary_ab) = None" "validateMetric (Name summary_ab_unparsed) = None"
    by (simp_all add: summary_ab_def summary_ab_unparsed_def validateMetric_ab)
  have parse: "strconv_ParseFloat example_lib ''0.5'' = Inr (Float 0.5)"
    by (simp add: example_lib_def)
  show unparsed: "strconv_ParseFloat example_lib ''half'' = Inl (LibraryError ''invalid syntax'')"
    by (simp add: example_lib_def)
  let ?c = "NewSummary \<lparr>sopts_Name = ''ab'', sopts_Help = ''x'',
                          sopts_Objectives = [(Float 0.5, Float 0.05)]\<rparr>"
  let ?h = "SummaryHandler summary_ab ?c"
  have built: "buildHandler example_lib summary_ab = Inr ?h"
    by (simp add: buildHandler_def validateObjectives_def parse summary_ab_def)
  have failed: "buildHandler example_lib summary_ab_unparsed = Inl (LibraryError ''invalid syntax'')"
    by (simp add: buildHandler_def validateObjectives_def unparsed summary_ab_def
        summary_ab_unparsed_def)
  show "register example_lib summary_ab (NewRegistry []) = (None, registry_summary_ab)"
    using valid(1) by (simp add: register_def built NewRegistry_def)
      (simp add: register_collector_def example_lib_def registry_summary_ab_def summary_ab_def)
  show "register example_lib summary_ab_unparsed (NewRegistry []) =
     (Some (LibraryError ''invalid syntax''), NewRegistry [])"
    using valid(2) by (simp add: register_def failed NewRegistry_def)
  have "register example_lib summary_ab_unparsed registry_summary_ab =
          (None, registry_summary_ab\<lparr>handlers := AList.update (Name summary_ab_unparsed) ?h
                      (AList.delete (Name summary_ab_unparsed) (handlers registry_summary_ab)),
                    registerer := [Collector ?h]\<rparr>)"
  proof (rule register_reuses_old_handler)
    show "validateMetric (Name summary_ab_unparsed) = None" by (rule valid)
    show "map_of (handlers registry_summary_ab) (Name summary_ab_unparsed) = Some ?h"
      by (simp add: registry_summary_ab_def summary_ab_unparsed_def summary_ab_def)
    show "Hash example_lib (Spec ?h) \<noteq> Hash example_lib summary_ab_unparsed"
      by (simp add: Hash_def Hash_writes_def summary_ab_def summary_ab_unparsed_def example_lib_def
          Sprintf_strings_def Sprintf_floats_def Sprintf_map_def Sprintf_x_def hexdigit_def)
    show "prometheus_Unregister example_lib (Collector ?h) (registerer registry_summary_ab) = (True, [])"
      by (simp add: example_lib_def registry_summary_ab_def)
    show "prometheus_Register example_lib (Collector ?h) [] = (None, [Collector ?h])"
      by (simp add: example_lib_def)
  qed
  then show "register example_lib summary_ab_unparsed registry_summary_ab = (None, registry_summary_ab)"
    by (simp add: registry_summary_ab_def summary_ab_unparsed_def summary_ab_def AList.delete_eq)
qed

section \<open>The fingerprint\<close>

lemma entries_from_keys:
  "distinct (map fst m) \<Longrightarrow> m = map (\<lambda>k. (k, the (map_of m k))) (map fst m)"
proof (induction m)
  case Nil
  show ?case by simp
next
  case (Cons kv m)
  obtain k v where kv: "kv = (k, v)" by (cases kv)
  from Cons.prems kv have notin: "k \<notin> fst ` set m" and dist: "distinct (map fst m)" by auto
  have "map (\<lambda>k'. (k', the (map_of (kv # m) k'))) (map fst m) =
        map (\<lambda>k'. (k', the (map_of m k'))) (map fst m)"
    using notin kv by (intro map_cong) auto
  with Cons.IH [OF dist] kv show ?case by simp
qed

lemma sort_key_map_eq:
  fixes m m' :: "(string \<times> float64) list"
  assumes "distinct (map fst m)" "distinct (map fst m')" "map_of m = map_of m'"
  shows "sort_key fst m = sort_key fst m'"
proof -
  have keys: "set (map fst m) = set (map fst m')"
    using assms(3) by (metis dom_map_of_conv_image_fst set_map)
  have d: "distinct (map fst (sort_key fst m))" "distinct (map fst (sort_key fst m'))"
    using assms(1,2) by (simp_all add: distinct_map)
  have "map fst (sort_key fst m) = map fst (sort_key fst m')"
  proof (rule sorted_distinct_set_unique)
    show "sorted (map fst (sort_key fst m))" "sorted (map fst (sort_key fst m'))"
      by simp_all
    show "distinct (map fst (sort_key fst m))" "distinct (map fst (sort_key fst m'))"
      by (rule d)+
    show "set (map fst (sort_key fst m)) = set (map fst (sort_key fst m'))"
      using keys by simp
  qed
  moreover have "map_of (sort_key fst m) = map_of m" "map_of (sort_key fst m') = map_of m'"
    using assms(1,2) d by (simp_all add: map_of_inject_set)
  ultimately show ?thesis
    using entries_from_keys [OF d(1)] entries_from_keys [OF d(2)] assms(3) by simp
qed

lemma hexdigit_inj: "m < 16 \<Longrightarrow> n < 16 \<Longrightarrow> hexdigit m = hexdigit n \<Longrightarrow> m = n"
proof -
  assume m: "m < 16" and n: "n < 16" and eq: "hexdigit m = hexdigit n"
  have d: "distinct ''0123456789abcdef''" by simp
  have l: "length ''0123456789abcdef'' = 16" by simp
  from eq m n have "''0123456789abcdef'' ! m = ''0123456789abcdef'' ! n"
    by (simp add: hexdigit_def)
  with nth_eq_iff_index_eq [OF d, of m n] m n l show "m = n" by simp
qed

lemma hex_pair_inj:
  assumes "[hexdigit (of_char b div 16), hexdigit (of_char b mod 16)] =
           [hexdigit (of_char c div 16), hexdigit (of_char c mod 16)]"
  shows "b = c"
proof -
  have b: "(of_char b :: nat) < 256" and c: "(of_char c :: nat) < 256" by simp_all
  then have "(of_char b :: nat) div 16 < 16" "(of_char c :: nat) div 16 < 16" by presburger+
  with assms have hi: "(of_char b :: nat) div 16 = of_char c div 16"
    using hexdigit_inj by simp
  have "(of_char b :: nat) mod 16 < 16" "(of_char c :: nat) mod 16 < 16" by simp_all
  with assms have lo: "(of_char b :: nat) mod 16 = of_char c mod 16"
    using hexdigit_inj by simp
  from hi lo have "(of_char b :: nat) = of_char c"
    by (metis div_mult_mod_eq)
  then show ?thesis by simp
qed

lemma Sprintf_x_inj: "Sprintf_x xs = Sprintf_x ys \<Longrightarrow> xs = ys"
proof (induction xs arbitrary: ys)
  case Nil
  then show ?case by (cases ys) (simp_all add: Sprintf_x_def)
next
  case (Cons b xs)
  then obtain c ys' where ys: "ys = c # ys'"
    by (cases ys) (simp_all add: Sprintf_x_def)
  with Cons.prems have "b = c" and "Sprintf_x xs = Sprintf_x ys'"
    using hex_pair_inj [of b c] by (simp_all add: Sprintf_x_def)
  with Cons.IH ys show ?case by simp
qed

lemma Hash_eq_iff:
  "no_collision L a b \<Longrightarrow>
   Hash L a = Hash L b \<longleftrightarrow> concat (Hash_writes L a) = concat (Hash_writes L b)"
  using Sprintf_x_inj by (auto simp: Hash_def no_collision_def)

text \<open>A text without the separator, followed by nothing or by the separator.\<close>

lemma takeWhile_until:
  "c \<notin> set u \<Longrightarrow> s = [] \<or> hd s = c \<Longrightarrow> takeWhile (\<lambda>x. x \<noteq> c) (u @ s) = u"
  by (induction u) (auto, cases s, auto)

lemma until_separator:
  assumes "u @ s = v @ t" and "c \<notin> set u" and "c \<notin> set v"
    and "s = [] \<or> hd s = c" and "t = [] \<or> hd t = c"
  shows "u = v \<and> s = t"
proof -
  have "takeWhile (\<lambda>x. x \<noteq> c) (u @ s) = u" "takeWhile (\<lambda>x. x \<noteq> c) (v @ t) = v"
    using assms(2-5) by (simp_all add: takeWhile_until)
  with assms(1) have "u = v" by simp
  with assms(1) show ?thesis by simp
qed

lemma join_Cons: "join sep (x # xs) = x @ (if xs = [] then [] else sep @ join sep xs)"
  by (cases xs) simp_all

lemma join_plain_inj:
  "list_all plain xs \<Longrightarrow> list_all plain ys \<Longrightarrow> join '' '' xs = join '' '' ys \<Longrightarrow> xs = ys"
proof (induction xs arbitrary: ys)
  case Nil
  then show ?case by (cases ys) (auto simp: join_Cons plain_def)
next
  case (Cons x xs)
  show ?case
  proof (cases ys)
    case Nil
    with Cons.prems show ?thesis by (auto simp: join_Cons plain_def)
  next
    case (Cons y ys')
    let ?s = "if xs = [] then [] else '' '' @ join '' '' xs"
    let ?t = "if ys' = [] then [] else '' '' @ join '' '' ys'"
    from Cons.prems Cons have eq: "x @ ?s = y @ ?t"
      by (simp only: join_Cons)
    have "x = y \<and> ?s = ?t"
    proof (rule until_separator [OF eq, of "CHR '' ''"])
      show "CHR '' '' \<notin> set x" "CHR '' '' \<notin> set y"
        using Cons.prems Cons by (simp_all add: plain_def)
      show "?s = [] \<or> hd ?s = CHR '' ''" "?t = [] \<or> hd ?t = CHR '' ''" by simp_all
    qed
    then have xy: "x = y" and st: "?s = ?t" by simp_all
    have "xs = ys'"
    proof (cases "xs = []")
      case True
      with st show ?thesis by (auto split: if_splits)
    next
      case False
      with st have "ys' \<noteq> []" and "join '' '' xs = join '' '' ys'"
        by (auto split: if_splits)
      with Cons.IH [of ys'] Cons.prems Cons show ?thesis by simp
    qed
    with xy Cons show ?thesis by simp
  qed
qed

lemma Sprintf_strings_inj:
  "list_all plain xs \<Longrightarrow> list_all plain ys \<Longrightarrow> Sprintf_strings xs = Sprintf_strings ys \<Longrightarrow> xs = ys"
  by (auto simp: Sprintf_strings_def intro: join_plain_inj)

lemma Sprintf_floats_inj:
  assumes "floats_plain L (xs @ ys)" and "Sprintf_floats L xs = Sprintf_floats L ys"
  shows "xs = ys"
proof -
  from assms(1) have inj: "inj_on (fmt_float64 L) (set xs \<union> set ys)"
    and p: "list_all plain (map (fmt_float64 L) xs)" "list_all plain (map (fmt_float64 L) ys)"
    by (simp_all add: floats_plain_def list_all_iff)
  from assms(2) have "join '' '' (map (fmt_float64 L) xs) = join '' '' (map (fmt_float64 L) ys)"
    by (simp add: Sprintf_floats_def)
  with p have "map (fmt_float64 L) xs = map (fmt_float64 L) ys" by (rule join_plain_inj)
  with inj show ?thesis by (simp add: inj_on_map_eq_map)
qed

lemma Sprintf_map_inj:
  assumes "distinct (map fst m)" and "distinct (map fst m')"
    and "keys_plain (m @ m')" and "floats_plain L (map snd (m @ m'))"
    and "Sprintf_map L m = Sprintf_map L m'"
  shows "map_of m = map_of m'"
proof -
  let ?entry = "\<lambda>(k, v). k @ '':'' @ fmt_float64 L v"
  have keys: "CHR '' '' \<notin> set k \<and> CHR '':'' \<notin> set k" if "(k, v) \<in> set m \<union> set m'" for k v
    using assms(3) that by (auto simp: keys_plain_def list_all_iff)
  have vals: "plain (fmt_float64 L v)" if "(k, v) \<in> set m \<union> set m'" for k v
    using assms(4) that by (force simp: floats_plain_def list_all_iff)
  have inj_val: "inj_on (fmt_float64 L) (snd ` (set m \<union> set m'))"
    using assms(4) by (simp add: floats_plain_def image_Un)
  have entry_plain: "plain (?entry e)" if "e \<in> set m \<union> set m'" for e
  proof -
    obtain k v where e: "e = (k, v)" by (cases e)
    with keys [of k v] vals [of k v] that show ?thesis by (auto simp: plain_def)
  qed
  have entry_inj: "inj_on ?entry (set m \<union> set m')"
  proof (rule inj_onI)
    fix e e' assume e: "e \<in> set m \<union> set m'" and e': "e' \<in> set m \<union> set m'"
      and eq: "?entry e = ?entry e'"
    obtain k v where kv: "e = (k, v)" by (cases e)
    obtain k' v' where kv': "e' = (k', v')" by (cases e')
    from eq kv kv' have "k @ ('':'' @ fmt_float64 L v) = k' @ ('':'' @ fmt_float64 L v')" by simp
    then have "k = k' \<and> '':'' @ fmt_float64 L v = '':'' @ fmt_float64 L v'"
      using keys [of k v] keys [of k' v'] e e' kv kv'
      by (intro until_separator [of _ _ _ _ "CHR '':''"]) simp_all
    then have "k = k'" and "fmt_float64 L v = fmt_float64 L v'" by simp_all
    moreover have "v \<in> snd ` (set m \<union> set m')" "v' \<in> snd ` (set m \<union> set m')"
      using e e' kv kv' by force+
    ultimately show "e = e'" using inj_val kv kv' by (auto dest: inj_onD)
  qed
  have p: "list_all plain (map ?entry (sort_key fst m))" "list_all plain (map ?entry (sort_key fst m'))"
    using entry_plain by (auto simp: list_all_iff)
  from assms(5) have "join '' '' (map ?entry (sort_key fst m)) = join '' '' (map ?entry (sort_key fst m'))"
    by (simp add: Sprintf_map_def)
  with p have "map ?entry (sort_key fst m) = map ?entry (sort_key fst m')" by (rule join_plain_inj)
  moreover have "inj_on ?entry (set (sort_key fst m) \<union> set (sort_key fst m'))"
    using entry_inj by simp
  ultimately have "sort_key fst m = sort_key fst m'" by (simp add: inj_on_map_eq_map)
  then have "set m = set m'" by (metis set_sort)
  with assms(1,2) show ?thesis by (simp add: map_of_inject_set)
qed

text \<open>
  C8: the fingerprint is a function of the type, help, labels, buckets and objectives and of
  nothing else. Two specs that agree on these five fields (the objectives as maps: the same
  keys with the same values, in whatever order they are held) have the same fingerprint,
  whatever their names. Conversely each field is read: when the digests of the two written
  texts do not collide and the printed items can be told apart, two specs that agree on four
  of the fields have the same fingerprint only if they agree on the fifth. \<open>Hash\<close> is a
  function of the spec, so two runs on one spec give one value.
\<close>

theorem Hash_content:
  assumes "distinct (map fst (Objectives a))" and "distinct (map fst (Objectives b))"
  shows
    "(Type a = Type b \<and> Help a = Help b \<and> Labels a = Labels b \<and> Buckets a = Buckets b \<and>
      map_of (Objectives a) = map_of (Objectives b) \<longrightarrow> Hash L a = Hash L b) \<and>
     (no_collision L a b \<longrightarrow>
        (Help a = Help b \<and> Labels a = Labels b \<and> Buckets a = Buckets b \<and>
         map_of (Objectives a) = map_of (Objectives b) \<longrightarrow>
           (Hash L a = Hash L b \<longleftrightarrow> Type a = Type b)) \<and>
        (Type a = Type b \<and> Labels a = Labels b \<and> Buckets a = Buckets b \<and>
         map_of (Objectives a) = map_of (Objectives b) \<longrightarrow>
           (Hash L a = Hash L b \<longleftrightarrow> Help a = Help b)) \<and>
        (Type a = Type b \<and> Help a = Help b \<and> Buckets a = Buckets b \<and>
         map_of (Objectives a) = map_of (Objectives b) \<and>
         list_all plain (Labels a @ Labels b) \<longrightarrow>
           (Hash L a = Hash L b \<longleftrightarrow> Labels a = Labels b)) \<and>
        (Type a = Type b \<and> Help a = Help b \<and> Labels a = Labels b \<and>
         map_of (Objectives a) = map_of (Objectives b) \<and>
         floats_plain L (Buckets a @ Buckets b) \<longrightarrow>
           (Hash L a = Hash L b \<longleftrightarrow> Buckets a = Buckets b)) \<and>
        (Type a = Type b \<and> Help a = Help b \<and> Labels a = Labels b \<and> Buckets a = Buckets b \<and>
         keys_plain (Objectives a @ Objectives b) \<and>
         floats_plain L (map snd (Objectives a @ Objectives b)) \<longrightarrow>
           (Hash L a = Hash L b \<longleftrightarrow> map_of (Objectives a) = map_of (Objectives b))))"
proof -
  have same_map: "Sprintf_map L (Objectives a) = Sprintf_map L (Objectives b)"
    if "map_of (Objectives a) = map_of (Objectives b)"
    using sort_key_map_eq [OF assms that] by (simp add: Sprintf_map_def)
  have agree: "Hash L a = Hash L b"
    if "Type a = Type b" "Help a = Help b" "Labels a = Labels b" "Buckets a = Buckets b"
      "map_of (Objectives a) = map_of (Objectives b)"
    using that same_map by (simp add: Hash_def Hash_writes_def)
  have written: "Hash L a = Hash L b \<longleftrightarrow>
      Type a @ Help a @ Sprintf_strings (Labels a) @ Sprintf_floats L (Buckets a)
        @ Sprintf_map L (Objectives a) =
      Type b @ Help b @ Sprintf_strings (Labels b) @ Sprintf_floats L (Buckets b)
        @ Sprintf_map L (Objectives b)" if "no_collision L a b"
    using Hash_eq_iff [OF that] by (simp add: Hash_writes_def)
  have by_type: "Hash L a = Hash L b \<longleftrightarrow> Type a = Type b"
    if "no_collision L a b" "Help a = Help b" "Labels a = Labels b" "Buckets a = Buckets b"
      "map_of (Objectives a) = map_of (Objectives b)"
    using written [OF that(1)] that(2-4) same_map [OF that(5)] by simp
  have by_help: "Hash L a = Hash L b \<longleftrightarrow> Help a = Help b"
    if "no_collision L a b" "Type a = Type b" "Labels a = Labels b" "Buckets a = Buckets b"
      "map_of (Objectives a) = map_of (Objectives b)"
    using written [OF that(1)] that(2-4) same_map [OF that(5)] by simp
  have by_labels: "Hash L a = Hash L b \<longleftrightarrow> Labels a = Labels b"
    if "no_collision L a b" "Type a = Type b" "Help a = Help b" "Buckets a = Buckets b"
      "map_of (Objectives a) = map_of (Objectives b)" "list_all plain (Labels a @ Labels b)"
  proof -
    have "Hash L a = Hash L b \<longleftrightarrow> Sprintf_strings (Labels a) = Sprintf_strings (Labels b)"
      using written [OF that(1)] that(2-4) same_map [OF that(5)] by simp
    also have "\<dots> \<longleftrightarrow> Labels a = Labels b"
      using that(6) Sprintf_strings_inj [of "Labels a" "Labels b"] by auto
    finally show ?thesis .
  qed
  have by_buckets: "Hash L a = Hash L b \<longleftrightarrow> Buckets a = Buckets b"
    if "no_collision L a b" "Type a = Type b" "Help a = Help b" "Labels a = Labels b"
      "map_of (Objectives a) = map_of (Objectives b)" "floats_plain L (Buckets a @ Buckets b)"
  proof -
    have "Hash L a = Hash L b \<longleftrightarrow> Sprintf_floats L (Buckets a) = Sprintf_floats L (Buckets b)"
      using written [OF that(1)] that(2-4) same_map [OF that(5)] by simp
    also have "\<dots> \<longleftrightarrow> Buckets a = Buckets b"
      using Sprintf_floats_inj [OF that(6)] by auto
    finally show ?thesis .
  qed
  have by_objectives: "Hash L a = Hash L b \<longleftrightarrow> map_of (Objectives a) = map_of (Objectives b)"
    if "no_collision L a b" "Type a = Type b" "Help a = Help b" "Labels a = Labels b"
      "Buckets a = Buckets b" "keys_plain (Objectives a @ Objectives b)"
      "floats_plain L (map snd (Objectives a @ Objectives b))"
  proof -
    have "Hash L a = Hash L b \<longleftrightarrow> Sprintf_map L (Objectives a) = Sprintf_map L (Objectives b)"
      using written [OF that(1)] that(2-5) by simp
    also have "\<dots> \<longleftrightarrow> map_of (Objectives a) = map_of (Objectives b)"
      using Sprintf_map_inj [OF assms that(6,7)] same_map by blast
    finally show ?thesis .
  qed
  show ?thesis
    using agree by_type by_help by_labels by_buckets by_objectives by blast
qed

lemma no_collision_example: "no_collision example_lib a b"
  by (simp add: no_collision_def example_lib_def)

theorem Hash_content_witness:
  "distinct (map fst (Objectives summary_cd)) \<and> distinct (map fst (Objectives summary_ef)) \<and>
   Name summary_cd \<noteq> Name summary_ef \<and> Objectives summary_cd \<noteq> Objectives summary_ef \<and>
   map_of (Objectives summary_cd) = map_of (Objectives summary_ef) \<and>
   no_collision example_lib summary_cd summary_ef \<and>
   list_all plain (Labels summary_cd @ Labels summary_ef) \<and>
   floats_plain example_lib (Buckets summary_cd @ Buckets summary_ef) \<and>
   keys_plain (Objectives summary_cd @ Objectives summary_ef) \<and>
   floats_plain example_lib (map snd (Objectives summary_cd @ Objectives summary_ef)) \<and>
   Hash example_lib summary_cd = Hash example_lib summary_ef \<and>
   floats_plain example_lib (Buckets histogram_zero @ Buckets histogram_negzero) \<and>
   Hash example_lib histogram_zero \<noteq> Hash example_lib histogram_negzero"
proof -
  have d: "distinct (map fst (Objectives summary_cd))" "distinct (map fst (Objectives summary_ef))"
    by (simp_all add: summary_cd_def summary_ef_def)
  have m: "map_of (Objectives summary_cd) = map_of (Objectives summary_ef)"
    by (rule ext) (simp add: summary_cd_def summary_ef_def)
  have f: "Type summary_cd = Type summary_ef" "Help summary_cd = Help summary_ef"
    "Labels summary_cd = Labels summary_ef" "Buckets summary_cd = Buckets summary_ef"
    "Name summary_cd \<noteq> Name summary_ef" "Objectives summary_cd \<noteq> Objectives summary_ef"
    by (simp_all add: summary_cd_def summary_ef_def)
  have p: "list_all plain (Labels summary_cd @ Labels summary_ef)"
    "floats_plain example_lib (Buckets summary_cd @ Buckets summary_ef)"
    "keys_plain (Objectives summary_cd @ Objectives summary_ef)"
    "floats_plain example_lib (map snd (Objectives summary_cd @ Objectives summary_ef))"
    by (simp_all add: summary_cd_def summary_ef_def plain_def floats_plain_def keys_plain_def
        example_lib_def inj_on_def)
  have z: "distinct (map fst (Objectives histogram_zero))"
    "distinct (map fst (Objectives histogram_negzero))"
    "Type histogram_zero = Type histogram_negzero" "Help histogram_zero = Help histogram_negzero"
    "Labels histogram_zero = Labels histogram_negzero"
    "map_of (Objectives histogram_zero) = map_of (Objectives histogram_negzero)"
    "Buckets histogram_zero \<noteq> Buckets histogram_negzero"
    by (simp_all add: histogram_zero_def histogram_negzero_def)
  have zp: "floats_plain example_lib (Buckets histogram_zero @ Buckets histogram_negzero)"
    by (simp add: histogram_zero_def histogram_negzero_def plain_def floats_plain_def example_lib_def
        inj_on_def)
  show ?thesis
    using Hash_content [OF d, of example_lib] Hash_content [OF z(1,2), of example_lib]
      d m f p z zp no_collision_example
    by simp
qed

section \<open>The decoder worker\<close>

lemma send_all_appends: "send_all ms p = p\<lparr>metricCh := metricCh p @ ms\<rparr>"
  by (induction ms arbitrary: p) simp_all

lemma DataParser_metricCh:
  "metricCh (DataParser unmarshal payloads p) =
     metricCh p @ concat (map (forwarded unmarshal) payloads)"
  by (induction payloads arbitrary: p)
     (simp_all add: DataParser_round_def forwarded_def send_all_appends split: sum.splits)

lemma DataParser_errors:
  "errors (DataParser unmarshal payloads p) =
     errors p + length (filter (\<lambda>data. isl (unmarshal data)) payloads)"
  by (induction payloads arbitrary: p)
     (simp_all add: DataParser_round_def send_all_appends split: sum.splits)

text \<open>
  C7: for a payload that fails to decode the worker counts one error and sends nothing; for
  a payload that decodes it counts no error and sends the decoded updates, each once and in
  the order of the batch. Over any sequence of payloads what has been sent is the
  concatenation of the decoded batches, and the errors counted are the payloads that failed
  to decode.
\<close>

theorem DataParser_forwards:
  "(\<forall>err. unmarshal data = Inl err \<longrightarrow>
      errors (DataParser_round unmarshal data p) = errors p + 1 \<and>
      metricCh (DataParser_round unmarshal data p) = metricCh p) \<and>
   (\<forall>metrics. unmarshal data = Inr metrics \<longrightarrow>
      errors (DataParser_round unmarshal data p) = errors p \<and>
      metricCh (DataParser_round unmarshal data p) = metricCh p @ metrics) \<and>
   metricCh (DataParser unmarshal payloads p) =
     metricCh p @ concat (map (forwarded unmarshal) payloads) \<and>
   errors (DataParser unmarshal payloads p) =
     errors p + length (filter (\<lambda>data. isl (unmarshal data)) payloads)"
  by (simp add: DataParser_metricCh DataParser_errors DataParser_round_def send_all_appends)

theorem DataParser_forwards_witness:
  "example_Unmarshal ''{'' = Inl (LibraryError ''invalid character'') \<and>
   errors (DataParser_round example_Unmarshal ''{'' parser0) = 1 \<and>
   metricCh (DataParser_round example_Unmarshal ''{'' parser0) = [] \<and>
   example_Unmarshal ''[inc_ab,add_cd]'' = Inr [inc_ab, add_cd] \<and>
   errors (DataParser_round example_Unmarshal ''[inc_ab,add_cd]'' parser0) = 0 \<and>
   metricCh (DataParser_round example_Unmarshal ''[inc_ab,add_cd]'' parser0) = [inc_ab, add_cd] \<and>
   metricCh (DataParser example_Unmarshal [''[inc_ab,add_cd]'', ''{'', ''[inc_ab,add_cd]''] parser0) =
     [inc_ab, add_cd, inc_ab, add_cd]"
proof -
  have a: "example_Unmarshal ''{'' = Inl (LibraryError ''invalid character'')"
    by (simp add: example_Unmarshal_def)
  have b: "example_Unmarshal ''[inc_ab,add_cd]'' = Inr [inc_ab, add_cd]"
    by (simp add: example_Unmarshal_def)
  show ?thesis
    using DataParser_forwards [of example_Unmarshal "''{''" parser0
            "[''[inc_ab,add_cd]'', ''{'', ''[inc_ab,add_cd]'']"]
      DataParser_forwards [of example_Unmarshal "''[inc_ab,add_cd]''" parser0 "[]"]
      a b
    by (simp add: parser0_def forwarded_def)
qed

section \<open>\<open>Reload\<close>\<close>

lemma Reload_register_newNames:
  "fst (Reload_register L specs acc out r) = acc @ map Name specs"
  by (induction specs arbitrary: acc out r) (auto split: prod.splits option.splits)

lemma register_collector_other:
  "n \<noteq> Name spec \<Longrightarrow>
   map_of (handlers (snd (register_collector L spec h r))) n = map_of (handlers r) n"
  by (auto simp: register_collector_def AList.update_conv' split: prod.splits option.splits)

lemma register_other:
  "n \<noteq> Name spec \<Longrightarrow> map_of (handlers (snd (register L spec r))) n = map_of (handlers r) n"
  by (auto simp: register_def register_collector_other AList.delete_conv'
      split: option.splits sum.splits prod.splits bool.splits)

lemma register_distinct:
  "distinct (map fst (handlers r)) \<Longrightarrow> distinct (map fst (handlers (snd (register L spec r))))"
  by (auto simp: register_def register_collector_def distinct_update distinct_delete
      split: option.splits sum.splits prod.splits bool.splits)

lemma Reload_register_other:
  "n \<notin> Name ` set specs \<Longrightarrow>
   map_of (handlers (snd (snd (Reload_register L specs acc out r)))) n = map_of (handlers r) n"
proof (induction specs arbitrary: acc out r)
  case Nil
  show ?case by simp
next
  case (Cons spec specs)
  then have "n \<noteq> Name spec" "n \<notin> Name ` set specs" by auto
  then show ?case
    using register_other [of n spec L r] Cons.IH
    by (auto split: prod.splits option.splits)
qed

lemma Reload_register_distinct:
  "distinct (map fst (handlers r)) \<Longrightarrow>
   distinct (map fst (handlers (snd (snd (Reload_register L specs acc out r)))))"
proof (induction specs arbitrary: acc out r)
  case Nil
  then show ?case by simp
next
  case (Cons spec specs)
  then show ?case
    using register_distinct [of r L spec]
    by (auto split: prod.splits option.splits)
qed

lemma Reload_register_no_LogError:
  "LogError e \<notin> set out \<Longrightarrow> LogError e \<notin> set (fst (snd (Reload_register L specs acc out r)))"
  by (induction specs arbitrary: acc out r) (auto split: prod.splits option.splits)

lemma unregister_present:
  assumes "map_of (handlers r) n \<noteq> None"
  shows "(unregister L n r = (None, snd (unregister L n r)) \<and>
          map_of (handlers (snd (unregister L n r))) n = None) \<or>
         (unregister L n r = (Some (FailedUnregister n), snd (unregister L n r)) \<and>
          handlers (snd (unregister L n r)) = handlers r)"
  using assms
  by (auto simp: unregister_def AList.delete_conv' split: option.splits prod.splits bool.splits)

lemma unregister_other:
  "m \<noteq> n \<Longrightarrow> map_of (handlers (snd (unregister L n r))) m = map_of (handlers r) m"
  by (auto simp: unregister_def AList.delete_conv' split: option.splits prod.splits bool.splits)

lemma Reload_unregister_other:
  "m \<notin> set ns \<Longrightarrow>
   map_of (handlers (snd (Reload_unregister L ns out r))) m = map_of (handlers r) m \<and>
   (LogError (FailedUnregister m) \<in> set (fst (Reload_unregister L ns out r)) \<longleftrightarrow>
    LogError (FailedUnregister m) \<in> set out)"
proof (induction ns arbitrary: out r)
  case Nil
  show ?case by simp
next
  case (Cons n ns)
  then have ne: "m \<noteq> n" and notin: "m \<notin> set ns" by auto
  have present: "map_of (handlers (snd (unregister L n r))) m = map_of (handlers r) m"
    using ne by (rule unregister_other)
  show ?case
  proof (cases "unregister L n r")
    case (Pair res r')
    show ?thesis
    proof (cases res)
      case None
      with Pair Cons.IH [OF notin, of "out @ [Unregistered n]" r'] present show ?thesis by simp
    next
      case (Some err)
      have "err = UnregisterNotExist n \<or> err = FailedUnregister n"
        using Pair Some
        by (auto simp: unregister_def split: option.splits prod.splits bool.splits)
      with Some Pair Cons.IH [OF notin, of "out @ [LogError err]" r'] present ne show ?thesis
        by auto
    qed
  qed
qed

lemma Reload_unregister_listed:
  assumes "distinct ns"
    and "\<forall>n \<in> set ns. map_of (handlers r) n \<noteq> None"
    and "\<forall>n \<in> set ns. LogError (FailedUnregister n) \<notin> set out"
    and "m \<in> set ns"
  shows "map_of (handlers (snd (Reload_unregister L ns out r))) m \<noteq> None \<longleftrightarrow>
         LogError (FailedUnregister m) \<in> set (fst (Reload_unregister L ns out r))"
  using assms
proof (induction ns arbitrary: out r)
  case Nil
  then show ?case by simp
next
  case (Cons n ns)
  from Cons.prems have dist: "distinct ns" and fresh: "n \<notin> set ns" by auto
  from Cons.prems have present: "map_of (handlers r) n \<noteq> None" by simp
  obtain res r' where step: "unregister L n r = (res, r')" by (cases "unregister L n r")
  have r': "r' = snd (unregister L n r)" using step by simp
  have keep: "\<forall>k \<in> set ns. map_of (handlers r') k \<noteq> None"
  proof
    fix k assume k: "k \<in> set ns"
    with fresh have "k \<noteq> n" by auto
    then have "map_of (handlers r') k = map_of (handlers r) k"
      unfolding r' by (rule unregister_other)
    with Cons.prems(2) k show "map_of (handlers r') k \<noteq> None" by simp
  qed
  consider (removed) "res = None" "map_of (handlers r') n = None"
    | (refused) "res = Some (FailedUnregister n)" "handlers r' = handlers r"
    using unregister_present [OF present, of L] step by auto
  then show ?case
  proof cases
    case removed
    let ?out = "out @ [Unregistered n]"
    have run: "Reload_unregister L (n # ns) out r = Reload_unregister L ns ?out r'"
      using step removed by simp
    have quiet: "\<forall>k \<in> set ns. LogError (FailedUnregister k) \<notin> set ?out"
      using Cons.prems(3) by simp
    show ?thesis
    proof (cases "m = n")
      case True
      with fresh have "m \<notin> set ns" by simp
      from Reload_unregister_other [OF this, of L ?out r'] True removed Cons.prems(3)
      show ?thesis unfolding run by simp
    next
      case False
      with Cons.prems(4) have "m \<in> set ns" by simp
      from Cons.IH [OF dist keep quiet this] show ?thesis unfolding run .
    qed
  next
    case refused
    let ?out = "out @ [LogError (FailedUnregister n)]"
    have run: "Reload_unregister L (n # ns) out r = Reload_unregister L ns ?out r'"
      using step refused by simp
    have quiet: "\<forall>k \<in> set ns. LogError (FailedUnregister k) \<notin> set ?out"
      using Cons.prems(3) fresh by auto
    show ?thesis
    proof (cases "m = n")
      case True
      with fresh have "m \<notin> set ns" by simp
      from Reload_unregister_other [OF this, of L ?out r'] True refused present
      show ?thesis unfolding run by simp
    next
      case False
      with Cons.prems(4) have "m \<in> set ns" by simp
      from Cons.IH [OF dist keep quiet this] show ?thesis unfolding run .
    qed
  qed
qed

lemma doNames_iff: "n \<in> set (doNames r) \<longleftrightarrow> map_of (handlers r) n \<noteq> None"
  by (simp add: doNames_def map_of_eq_None_iff)

text \<open>
  After \<open>register\<close> the name of the spec holds a handler exactly when the registration
  succeeded, or when it held one before and the registration stopped before the old entry
  was deleted (the name is invalid, or the registerer refused to unregister the collector).
\<close>

lemma register_name_present:
  "map_of (handlers (snd (register L spec r))) (Name spec) \<noteq> None \<longleftrightarrow>
   fst (register L spec r) = None \<or>
   (\<exists>h. map_of (handlers r) (Name spec) = Some h \<and>
        (validateMetric (Name spec) \<noteq> None \<or>
         fst (register L spec r) = Some (FailedReRegister (Name spec)) \<and>
         \<not> fst (prometheus_Unregister L (Collector h) (registerer r))))"
  by (auto simp: register_def register_collector_def AList.update_conv' AList.delete_conv'
      split: option.splits sum.splits prod.splits bool.splits)

text \<open>
  After \<open>Reload\<close> the names of the registry are the incoming names that hold a handler
  when the first loop ends, together with the earlier names that are not incoming and whose
  \<open>unregister\<close> failed.
\<close>

lemma Reload_names_after_first_loop:
  assumes "distinct (map fst (handlers r))"
    and "Reload_register L specs [] [] r = (newNames, out1, r1)"
    and "Reload L specs r = (out, r2)"
  shows "newNames = map Name specs \<and>
         set (Names r2) =
           {n \<in> set (Names r1). n \<in> set newNames} \<union>
           {n \<in> set (Names r). n \<notin> set newNames \<and> LogError (FailedUnregister n) \<in> set out}"
  unfolding Names_def
proof
  show names: "newNames = map Name specs"
    using Reload_register_newNames [of L specs "[]" "[]" r] assms(2) by simp
  let ?unreg = "sliceSubStr (doNames r) newNames"
  have run: "Reload_unregister L ?unreg out1 r1 = (out, r2)"
    using assms(2,3) by (simp add: Reload_def)
  have unreg: "set ?unreg = {n \<in> set (doNames r). n \<notin> set newNames}"
    by (auto simp: sliceSubStr_def)
  have dist: "distinct ?unreg"
    using assms(1) by (simp add: sliceSubStr_def doNames_def)
  have same: "map_of (handlers r1) n = map_of (handlers r) n" if "n \<notin> set newNames" for n
    using Reload_register_other [of n specs L "[]" "[]" r] that assms(2) names by simp
  have present: "\<forall>n \<in> set ?unreg. map_of (handlers r1) n \<noteq> None"
    using same unreg by (auto simp: doNames_iff)
  have quiet: "LogError e \<notin> set out1" for e
    using Reload_register_no_LogError [of e "[]" L specs "[]" r] assms(2) by simp
  have listed: "map_of (handlers r2) n \<noteq> None \<longleftrightarrow> LogError (FailedUnregister n) \<in> set out"
    if "n \<in> set ?unreg" for n
    using Reload_unregister_listed [OF dist present _ that, of out1 L] quiet run by simp
  have other: "map_of (handlers r2) n = map_of (handlers r1) n \<and>
               LogError (FailedUnregister n) \<notin> set out"
    if "n \<notin> set ?unreg" for n
    using Reload_unregister_other [OF that, of L out1 r1] quiet run by simp
  show "set (doNames r2) =
           {n \<in> set (doNames r1). n \<in> set newNames} \<union>
           {n \<in> set (doNames r). n \<notin> set newNames \<and> LogError (FailedUnregister n) \<in> set out}"
  proof (intro set_eqI iffI)
    fix n assume n: "n \<in> set (doNames r2)"
    show "n \<in> {n \<in> set (doNames r1). n \<in> set newNames} \<union>
           {n \<in> set (doNames r). n \<notin> set newNames \<and> LogError (FailedUnregister n) \<in> set out}"
    proof (cases "n \<in> set ?unreg")
      case True
      with listed [OF True] n unreg show ?thesis by (auto simp: doNames_iff)
    next
      case False
      with other [OF False] n have in1: "n \<in> set (doNames r1)" by (simp add: doNames_iff)
      show ?thesis
      proof (cases "n \<in> set newNames")
        case True
        with in1 show ?thesis by simp
      next
        case False
        with same [OF False] in1 have "n \<in> set ?unreg" unfolding unreg by (simp add: doNames_iff)
        with \<open>n \<notin> set ?unreg\<close> show ?thesis by simp
      qed
    qed
  next
    fix n assume "n \<in> {n \<in> set (doNames r1). n \<in> set newNames} \<union>
           {n \<in> set (doNames r). n \<notin> set newNames \<and> LogError (FailedUnregister n) \<in> set out}"
    then consider (incoming) "n \<in> set (doNames r1)" "n \<in> set newNames"
      | (old) "n \<in> set (doNames r)" "n \<notin> set newNames" "LogError (FailedUnregister n) \<in> set out"
      by auto
    then show "n \<in> set (doNames r2)"
    proof cases
      case incoming
      then have "n \<notin> set ?unreg" unfolding unreg by simp
      from other [OF this] incoming show ?thesis by (simp add: doNames_iff)
    next
      case old
      then have "n \<in> set ?unreg" unfolding unreg by simp
      from listed [OF this] old show ?thesis by (simp add: doNames_iff)
    qed
  qed
qed

lemma Reload_register_state:
  "snd (snd (Reload_register L specs acc out r)) = foldl (\<lambda>r spec. snd (register L spec r)) r specs"
  by (induction specs arbitrary: acc out r) (auto split: prod.splits option.splits)

lemma delete_changes: "map_of hs n = Some h \<Longrightarrow> AList.delete n hs \<noteq> hs"
proof
  assume "map_of hs n = Some h" and "AList.delete n hs = hs"
  then have "map_of (AList.delete n hs) n = Some h" by simp
  then show False by (simp add: AList.delete_conv')
qed

lemma register_kept:
  "map_of (handlers (snd (register L spec r))) (Name spec) \<noteq> None \<longleftrightarrow> kept_by_register L spec r"
proof (cases "validateMetric (Name spec)")
  case (Some err)
  then show ?thesis by (simp add: register_def kept_by_register_def)
next
  case None
  note valid = this
  show ?thesis
  proof (cases "map_of (handlers r) (Name spec)")
    case None
    with valid show ?thesis
      by (auto simp: register_def kept_by_register_def register_collector_def AList.update_conv'
          split: sum.splits prod.splits option.splits)
  next
    case (Some h)
    note present = this
    show ?thesis
    proof (cases "Hash L (Spec h) = Hash L spec")
      case True
      with valid present show ?thesis by (simp add: register_def kept_by_register_def)
    next
      case False
      note changed = this
      obtain ok s' where un: "prometheus_Unregister L (Collector h) (registerer r) = (ok, s')"
        by (cases "prometheus_Unregister L (Collector h) (registerer r)")
      show ?thesis
      proof (cases ok)
        case False
        with valid present changed un show ?thesis
          by (simp add: register_def kept_by_register_def)
      next
        case True
        with valid present changed un delete_changes [OF present] show ?thesis
          by (auto simp: register_def kept_by_register_def register_collector_def
              AList.update_conv' AList.delete_conv' split: prod.splits option.splits)
      qed
    qed
  qed
qed

lemma foldl_register_other:
  "n \<notin> Name ` set specs \<Longrightarrow>
   map_of (handlers (foldl (\<lambda>r spec. snd (register L spec r)) r specs)) n = map_of (handlers r) n"
  using Reload_register_other [of n specs L "[]" "[]" r] by (simp add: Reload_register_state)

lemma after_last_attempt:
  assumes "i < length specs" and "last_of_its_name specs i"
    and "r1 = snd (snd (Reload_register L specs [] [] r))"
  shows "map_of (handlers r1) (Name (specs ! i)) \<noteq> None \<longleftrightarrow>
         kept_by_register L (specs ! i) (Reload_before L specs r i)"
proof -
  let ?f = "\<lambda>r spec. snd (register L spec r)"
  let ?ri = "Reload_before L specs r i"
  have ri: "?ri = foldl ?f r (take i specs)"
    by (simp add: Reload_before_def Reload_register_state)
  have "foldl ?f r (take i specs @ specs ! i # drop (Suc i) specs) =
        foldl ?f (?f ?ri (specs ! i)) (drop (Suc i) specs)"
    by (simp add: ri)
  moreover have "take i specs @ specs ! i # drop (Suc i) specs = specs"
    using assms(1) by (rule id_take_nth_drop [symmetric])
  ultimately have "foldl ?f r specs = foldl ?f (?f ?ri (specs ! i)) (drop (Suc i) specs)"
    by (simp only:)
  then have "r1 = foldl ?f (snd (register L (specs ! i) ?ri)) (drop (Suc i) specs)"
    using assms(3) by (simp add: Reload_register_state)
  then have "map_of (handlers r1) (Name (specs ! i)) =
             map_of (handlers (snd (register L (specs ! i) ?ri))) (Name (specs ! i))"
    using assms(2) by (simp add: last_of_its_name_def foldl_register_other)
  then show ?thesis
    using register_kept [of L "specs ! i" ?ri] by simp
qed

lemma has_last_of_its_name:
  "n \<in> Name ` set specs \<Longrightarrow> \<exists>i < length specs. Name (specs ! i) = n \<and> last_of_its_name specs i"
proof (induction specs)
  case Nil
  then show ?case by simp
next
  case (Cons spec specs)
  show ?case
  proof (cases "n \<in> Name ` set specs")
    case True
    with Cons.IH obtain j where "j < length specs" "Name (specs ! j) = n" "last_of_its_name specs j"
      by blast
    then have "Suc j < length (spec # specs) \<and> Name ((spec # specs) ! Suc j) = n \<and>
               last_of_its_name (spec # specs) (Suc j)"
      by (simp add: last_of_its_name_def)
    then show ?thesis by blast
  next
    case False
    with Cons.prems have "Name spec = n" by auto
    with False have "0 < length (spec # specs) \<and> Name ((spec # specs) ! 0) = n \<and>
               last_of_its_name (spec # specs) 0"
      by (simp add: last_of_its_name_def)
    then show ?thesis by blast
  qed
qed

text \<open>
  C2 (as the code has it): \<open>newNames\<close>, the names kept by the diff, is the list of the
  names of all incoming specs, whether their registration succeeded or not. After
  \<open>Reload\<close> the names of the registry are exactly the names of the incoming specs whose
  registration (for a name that occurs several times, that of its last spec) succeeded, or
  errored while the handler that the name had stayed in the map, together with the earlier
  names that are not incoming and whose \<open>unregister\<close> failed.
\<close>

theorem Reload_names:
  assumes "distinct (map fst (handlers r))"
    and "Reload L specs r = (out, r2)"
  shows "fst (Reload_register L specs [] [] r) = map Name specs \<and>
         set (Names r2) =
           {Name (specs ! i) |i. i < length specs \<and> last_of_its_name specs i \<and>
              kept_by_register L (specs ! i) (Reload_before L specs r i)} \<union>
           {n \<in> set (Names r). n \<notin> Name ` set specs \<and> LogError (FailedUnregister n) \<in> set out}"
proof -
  obtain newNames out1 r1 where first: "Reload_register L specs [] [] r = (newNames, out1, r1)"
    by (cases "Reload_register L specs [] [] r") auto
  from Reload_names_after_first_loop [OF assms(1) first assms(2)]
  have names: "newNames = map Name specs"
    and after: "set (Names r2) =
           {n \<in> set (Names r1). n \<in> set newNames} \<union>
           {n \<in> set (Names r). n \<notin> set newNames \<and> LogError (FailedUnregister n) \<in> set out}"
    by simp_all
  have r1: "r1 = snd (snd (Reload_register L specs [] [] r))" using first by simp
  have incoming: "{n \<in> set (Names r1). n \<in> set newNames} =
           {Name (specs ! i) |i. i < length specs \<and> last_of_its_name specs i \<and>
              kept_by_register L (specs ! i) (Reload_before L specs r i)}" (is "?A = ?B")
  proof (intro set_eqI iffI)
    fix n assume "n \<in> ?A"
    then have present: "map_of (handlers r1) n \<noteq> None" and "n \<in> Name ` set specs"
      using names by (simp_all add: Names_def doNames_iff)
    then obtain i where i: "i < length specs" "Name (specs ! i) = n" "last_of_its_name specs i"
      using has_last_of_its_name by blast
    with after_last_attempt [OF i(1) i(3) r1] present
    have "kept_by_register L (specs ! i) (Reload_before L specs r i)" by simp
    with i show "n \<in> ?B" by blast
  next
    fix n assume "n \<in> ?B"
    then obtain i where i: "i < length specs" "Name (specs ! i) = n" "last_of_its_name specs i"
      and kept: "kept_by_register L (specs ! i) (Reload_before L specs r i)"
      by blast
    from after_last_attempt [OF i(1) i(3) r1] kept i(2)
    have "map_of (handlers r1) n \<noteq> None" by simp
    moreover from i have "n \<in> set newNames" unfolding names by auto
    ultimately show "n \<in> ?A" by (simp add: Names_def doNames_iff)
  qed
  from names after incoming first show ?thesis by simp
qed

lemma validateMetric_Bad: "validateMetric ''Bad'' = Some (InvalidMetricName ''Bad'')"
  by (simp add: validateMetric_def metricRe_def Plus_def in_class_def)

lemma register_ab_refusing:
  "register refusing_lib counter_ab (NewRegistry []) = (None, registry_ab)"
  by (simp add: register_def register_collector_def buildHandler_def counter_ab_def NewRegistry_def
      validateMetric_ab example_lib_def refusing_lib_def registry_ab_def)

lemma register_changed_refusing:
  "register refusing_lib counter_ab_changed registry_ab =
     (Some (FailedReRegister ''ab''), registry_ab)"
proof -
  have "Hash refusing_lib counter_ab \<noteq> Hash refusing_lib counter_ab_changed"
    by (simp add: Hash_def Hash_writes_def counter_ab_def counter_ab_changed_def example_lib_def refusing_lib_def
        Sprintf_strings_def Sprintf_floats_def Sprintf_map_def Sprintf_x_def hexdigit_def)
  moreover have "validateMetric (Name counter_ab_changed) = None"
    by (simp add: counter_ab_changed_def counter_ab_def validateMetric_ab)
  moreover have "map_of (handlers registry_ab) (Name counter_ab_changed) =
      Some (CounterHandler counter_ab (NewCounter \<lparr>opts_Name = ''ab'', opts_Help = ''x''\<rparr>))"
    by (simp add: registry_ab_def counter_ab_changed_def counter_ab_def)
  moreover have "prometheus_Unregister refusing_lib c s = (False, s)" for c s
    by (simp add: refusing_lib_def)
  ultimately show ?thesis
    by (simp add: register_def) (simp add: counter_ab_changed_def counter_ab_def registry_ab_def)
qed

lemma validateMetric_ef: "validateMetric ''ef'' = None"
  by (simp add: validateMetric_def metricRe_def Plus_def in_class_def)

lemma register_changed_refusing_ab_cd:
  "register refusing_lib counter_ab_changed registry_ab_cd =
     (Some (FailedReRegister ''ab''), registry_ab_cd)"
proof -
  have "Hash refusing_lib counter_ab \<noteq> Hash refusing_lib counter_ab_changed"
    by (simp add: Hash_def Hash_writes_def counter_ab_def counter_ab_changed_def example_lib_def
        refusing_lib_def Sprintf_strings_def Sprintf_floats_def Sprintf_map_def Sprintf_x_def
        hexdigit_def)
  moreover have "validateMetric (Name counter_ab_changed) = None"
    by (simp add: counter_ab_changed_def counter_ab_def validateMetric_ab)
  moreover have "map_of (handlers registry_ab_cd) (Name counter_ab_changed) =
      Some (CounterHandler counter_ab (NewCounter \<lparr>opts_Name = ''ab'', opts_Help = ''x''\<rparr>))"
    by (simp add: registry_ab_cd_def counter_ab_changed_def counter_ab_def)
  moreover have "prometheus_Unregister refusing_lib c s = (False, s)" for c s
    by (simp add: refusing_lib_def)
  ultimately show ?thesis
    by (simp add: register_def) (simp add: counter_ab_changed_def counter_ab_def registry_ab_cd_def)
qed

lemma register_ef_refusing:
  "register refusing_lib counter_ef registry_ab_cd = (None, registry_ab_cd_ef)"
  by (simp add: register_def register_collector_def buildHandler_def counter_ef_def
      validateMetric_ef example_lib_def refusing_lib_def registry_ab_cd_def registry_ab_cd_ef_def)

lemma unregister_cd_refusing:
  "unregister refusing_lib ''cd'' registry_ab_cd_ef =
     (Some (FailedUnregister ''cd''), registry_ab_cd_ef)"
  by (simp add: unregister_def registry_ab_cd_ef_def refusing_lib_def)

theorem Reload_names_witness:
  "distinct (map fst (handlers registry_ab_cd)) \<and>
   Reload refusing_lib [counter_ab_changed, counter_ef] registry_ab_cd =
     ([ErrorRegistering ''ab'' (FailedReRegister ''ab''), Registered ''ef'',
       LogError (FailedUnregister ''cd'')], registry_ab_cd_ef) \<and>
   fst (Reload_register refusing_lib [counter_ab_changed, counter_ef] [] [] registry_ab_cd) =
     [''ab'', ''ef''] \<and>
   kept_by_register refusing_lib counter_ab_changed
     (Reload_before refusing_lib [counter_ab_changed, counter_ef] registry_ab_cd 0) \<and>
   kept_by_register refusing_lib counter_ef
     (Reload_before refusing_lib [counter_ab_changed, counter_ef] registry_ab_cd 1) \<and>
   Names registry_ab_cd_ef = [''ab'', ''cd'', ''ef''] \<and>
   set (Names registry_ab_cd_ef) =
     {Name ([counter_ab_changed, counter_ef] ! i) |i.
        i < length [counter_ab_changed, counter_ef] \<and>
        last_of_its_name [counter_ab_changed, counter_ef] i \<and>
        kept_by_register refusing_lib ([counter_ab_changed, counter_ef] ! i)
          (Reload_before refusing_lib [counter_ab_changed, counter_ef] registry_ab_cd i)} \<union>
     {n \<in> set (Names registry_ab_cd). n \<notin> Name ` set [counter_ab_changed, counter_ef] \<and>
        LogError (FailedUnregister n) \<in>
          set [ErrorRegistering ''ab'' (FailedReRegister ''ab''), Registered ''ef'',
               LogError (FailedUnregister ''cd'')]}"
proof -
  have d: "distinct (map fst (handlers registry_ab_cd))"
    by (simp add: registry_ab_cd_def)
  have names: "Name counter_ab_changed = ''ab''" "Name counter_ef = ''ef''"
    by (simp_all add: counter_ab_changed_def counter_ab_def counter_ef_def)
  have first: "Reload_register refusing_lib [counter_ab_changed, counter_ef] [] [] registry_ab_cd =
     ([''ab'', ''ef''], [ErrorRegistering ''ab'' (FailedReRegister ''ab''), Registered ''ef''],
      registry_ab_cd_ef)"
    by (simp add: register_changed_refusing_ab_cd register_ef_refusing names)
  have all: "Reload refusing_lib [counter_ab_changed, counter_ef] registry_ab_cd =
     ([ErrorRegistering ''ab'' (FailedReRegister ''ab''), Registered ''ef'',
       LogError (FailedUnregister ''cd'')], registry_ab_cd_ef)"
    unfolding Reload_def first
    by (simp add: doNames_def registry_ab_cd_def sliceSubStr_def unregister_cd_refusing)
  have k0: "kept_by_register refusing_lib counter_ab_changed
     (Reload_before refusing_lib [counter_ab_changed, counter_ef] registry_ab_cd 0)"
    by (simp add: Reload_before_def kept_by_register_def register_changed_refusing_ab_cd)
       (simp add: registry_ab_cd_def names)
  have k1: "kept_by_register refusing_lib counter_ef
     (Reload_before refusing_lib [counter_ab_changed, counter_ef] registry_ab_cd 1)"
    by (simp add: Reload_before_def kept_by_register_def register_changed_refusing_ab_cd
        register_ef_refusing)
  have n: "Names registry_ab_cd_ef = [''ab'', ''cd'', ''ef'']"
    by (simp add: Names_def doNames_def registry_ab_cd_ef_def)
  have f: "fst (Reload_register refusing_lib [counter_ab_changed, counter_ef] [] [] registry_ab_cd) =
     [''ab'', ''ef'']"
    using first by simp
  show ?thesis
    by (intro conjI d all f k0 k1 n Reload_names [OF d all, THEN conjunct2])
qed

text \<open>
  Why the last spec of a name decides: with a registerer that will not register a collector
  again, the counter \<open>ab\<close> is registered, its changed spec then errors after the old entry
  is deleted, and \<open>ab\<close> is no name of the registry although a spec of that name was
  registered.
\<close>

lemma Reload_repeated_name:
  "Reload sticky_lib [counter_ab, counter_ab_changed] (NewRegistry []) =
     ([Registered ''ab'', ErrorRegistering ''ab'' (LibraryError ''duplicate metrics collector'')],
      \<lparr>handlers = [], registerer = [NewCounter \<lparr>opts_Name = ''ab'', opts_Help = ''x''\<rparr>]\<rparr>)"
proof -
  have one: "register sticky_lib counter_ab (NewRegistry []) = (None, registry_ab)"
    by (simp add: register_def register_collector_def buildHandler_def counter_ab_def
        NewRegistry_def validateMetric_ab example_lib_def sticky_lib_def registry_ab_def)
  have "Hash sticky_lib counter_ab \<noteq> Hash sticky_lib counter_ab_changed"
    by (simp add: Hash_def Hash_writes_def counter_ab_def counter_ab_changed_def example_lib_def
        sticky_lib_def Sprintf_strings_def Sprintf_floats_def Sprintf_map_def Sprintf_x_def
        hexdigit_def)
  moreover have "validateMetric (Name counter_ab_changed) = None"
    by (simp add: counter_ab_changed_def counter_ab_def validateMetric_ab)
  moreover have "map_of (handlers registry_ab) (Name counter_ab_changed) =
      Some (CounterHandler counter_ab (NewCounter \<lparr>opts_Name = ''ab'', opts_Help = ''x''\<rparr>))"
    by (simp add: registry_ab_def counter_ab_changed_def counter_ab_def)
  ultimately have two: "register sticky_lib counter_ab_changed registry_ab =
      (Some (LibraryError ''duplicate metrics collector''),
       \<lparr>handlers = [], registerer = [NewCounter \<lparr>opts_Name = ''ab'', opts_Help = ''x''\<rparr>]\<rparr>)"
    by (simp add: register_def)
       (simp add: register_collector_def sticky_lib_def example_lib_def registry_ab_def
         counter_ab_changed_def counter_ab_def AList.delete_eq)
  show ?thesis
    by (simp add: Reload_def one two)
       (simp add: counter_ab_def counter_ab_changed_def doNames_def NewRegistry_def sliceSubStr_def)
qed

text \<open>
  C2 (as stated) fails. With a registerer that refuses to unregister, \<open>Reload\<close> of the
  counter \<open>ab\<close> and then of the changed counter \<open>ab\<close>: the second registration errors,
  nothing is logged as registered or as failing to unregister, and yet \<open>ab\<close> is kept by
  the diff and is still a name of the registry. With the plain registerer, \<open>Reload\<close> of
  a spec with the invalid name \<open>Bad\<close>: the registration errors and \<open>Bad\<close> is kept by
  the diff.
\<close>

theorem Reload_keeps_errored_names:
  "Reload refusing_lib [counter_ab] (NewRegistry []) = ([Registered ''ab''], registry_ab) \<and>
   Reload_register refusing_lib [counter_ab_changed] [] [] registry_ab =
     ([''ab''], [ErrorRegistering ''ab'' (FailedReRegister ''ab'')], registry_ab) \<and>
   Reload refusing_lib [counter_ab_changed] registry_ab =
     ([ErrorRegistering ''ab'' (FailedReRegister ''ab'')], registry_ab) \<and>
   Names registry_ab = [''ab''] \<and>
   Reload_register example_lib [counter_Bad] [] [] (NewRegistry []) =
     ([''Bad''], [ErrorRegistering ''Bad'' (InvalidMetricName ''Bad'')], NewRegistry [])"
proof (intro conjI)
  show "Reload refusing_lib [counter_ab] (NewRegistry []) = ([Registered ''ab''], registry_ab)"
    by (simp add: Reload_def register_ab_refusing)
       (simp add: counter_ab_def doNames_def NewRegistry_def sliceSubStr_def)
  show first: "Reload_register refusing_lib [counter_ab_changed] [] [] registry_ab =
     ([''ab''], [ErrorRegistering ''ab'' (FailedReRegister ''ab'')], registry_ab)"
    by (simp add: register_changed_refusing) (simp add: counter_ab_changed_def counter_ab_def)
  show "Reload refusing_lib [counter_ab_changed] registry_ab =
     ([ErrorRegistering ''ab'' (FailedReRegister ''ab'')], registry_ab)"
    unfolding Reload_def first by (simp add: doNames_def registry_ab_def sliceSubStr_def)
  show "Names registry_ab = [''ab'']"
    by (simp add: Names_def doNames_def registry_ab_def)
  show "Reload_register example_lib [counter_Bad] [] [] (NewRegistry []) =
     ([''Bad''], [ErrorRegistering ''Bad'' (InvalidMetricName ''Bad'')], NewRegistry [])"
    by (simp add: register_def counter_Bad_def validateMetric_Bad)
qed

end
